theory Spec2Isabelle
  imports Complex_Main
begin

section \<open>Errors\<close>

text \<open>
  The exceptions the modelled Python code can raise.  A function that can raise returns
  \<open>error + 'a\<close>, with \<open>Inl\<close> for the exception.
\<close>

datatype error =
    BuildError string
  | ValidationError string
  | ValueError
  | NameError string
  | IndexError
  | KeyError
  | TypeError
  | ZeroDivisionError

section \<open>The two-compartment LIF neuron\<close>

text \<open>
  The attributes of \<open>TwoCompLIF\<close> (\<open>neurons.py\<close>); \<open>LIF\<close> uses the somatic ones only.
  Python floats are idealised as real numbers.  The parameter validation of the class
  (\<open>NumberParam(low=0, low_open=True)\<close> for the capacitances, \<open>IntParam(low=1)\<close> for
  \<open>subsample\<close>) keeps the divisors of the integrator away from zero; the theorems about
  the integrator state this as \<open>valid_sim\<close>.
\<close>

record neuron =
  C_som :: real
  C_den :: real
  g_leak_som :: real
  g_leak_den :: real
  g_couple :: real
  E_rev_leak :: real
  E_rev_exc :: real
  E_rev_inh :: real
  tau_ref :: real
  tau_spike :: real
  v_th :: real
  v_reset :: real
  v_spike :: real
  subsample :: nat

text \<open>The defaults of \<open>TwoCompLIF.__init__\<close>.\<close>

definition default_neuron :: neuron where
  "default_neuron = \<lparr>
     C_som = 1 / 10 ^ 9, C_den = 1 / 10 ^ 9,
     g_leak_som = 50 / 10 ^ 9, g_leak_den = 50 / 10 ^ 9, g_couple = 50 / 10 ^ 9,
     E_rev_leak = - 65 / 1000, E_rev_exc = 20 / 1000, E_rev_inh = - 75 / 1000,
     tau_ref = 2 / 1000, tau_spike = 1 / 1000,
     v_th = - 50 / 1000, v_reset = - 65 / 1000, v_spike = 20 / 1000,
     subsample = 10 \<rparr>"

subsection \<open>The reference integrator (\<open>tests/test_neurons.py\<close>)\<close>

text \<open>
  \<open>ReferenceTwoCompLIFSimulator\<close> keeps \<open>v_som\<close>, \<open>v_den\<close> and \<open>tref\<close> between calls;
  \<open>__call__(out, gE, gI)\<close> writes into the caller's buffer \<open>out\<close> only when a spike
  occurs.  The state below carries the buffer as \<open>out\<close>.
\<close>

record sim =
  s_v_som :: real
  s_v_den :: real
  s_tref :: real
  s_out :: real

text \<open>\<open>__init__\<close>: both voltages start at the reset voltage, the timer at zero.\<close>

definition sim_init :: "neuron \<Rightarrow> real \<Rightarrow> sim" where
  "sim_init nrn out0 = \<lparr> s_v_som = v_reset nrn, s_v_den = v_reset nrn, s_tref = 0, s_out = out0 \<rparr>"









subsection \<open>Gain, bias, maximum rate and intercept (\<open>LIF\<close>)\<close>

text \<open>
  A value of a numpy float array is \<open>Some x\<close> when it is finite and \<open>None\<close> when it is
  \<open>inf\<close>, \<open>-inf\<close> or \<open>nan\<close>.  numpy's elementwise division does not raise on a zero
  divisor: the quotient is non-finite.  A non-finite operand gives a non-finite result in
  every operation below (their other operand is finite there).  Division of two Python
  floats raises \<open>ZeroDivisionError\<close>.
\<close>

type_synonym npfloat = "real option"

definition np_lift :: "(real \<Rightarrow> real \<Rightarrow> real) \<Rightarrow> npfloat \<Rightarrow> npfloat \<Rightarrow> npfloat" where
  "np_lift f a b = (case (a, b) of (Some x, Some y) \<Rightarrow> Some (f x y) | _ \<Rightarrow> None)"

definition np_div :: "npfloat \<Rightarrow> npfloat \<Rightarrow> npfloat" where
  "np_div a b = (case (a, b) of (Some x, Some y) \<Rightarrow> (if y = 0 then None else Some (x / y)) | _ \<Rightarrow> None)"

definition py_div :: "real \<Rightarrow> real \<Rightarrow> error + real" where
  "py_div a b = (if b = 0 then Inl ZeroDivisionError else Inr (a / b))"

definition isfinite :: "npfloat \<Rightarrow> bool" where
  "isfinite a \<longleftrightarrow> a \<noteq> None"

text \<open>
  An elementwise operation on two one-dimensional arrays: numpy stretches an array of
  length one to the other's length and refuses any other two lengths that differ.
\<close>

definition np_elementwise :: "('a \<Rightarrow> 'b \<Rightarrow> 'c) \<Rightarrow> 'a list \<Rightarrow> 'b list \<Rightarrow> error + 'c list" where
  "np_elementwise f xs ys =
     (if length xs = length ys then Inr (map2 f xs ys)
      else if length xs = 1 then Inr (map (f (hd xs)) ys)
      else if length ys = 1 then Inr (map (\<lambda>x. f x (hd ys)) xs)
      else Inl ValueError)"

text \<open>\<open>LIF.threshold_current\<close> and \<open>LIF._lif_parameters\<close>.\<close>

definition threshold_current :: "neuron \<Rightarrow> real" where
  "threshold_current nrn = (v_th nrn - E_rev_leak nrn) * g_leak_som nrn"

definition lif_parameters :: "neuron \<Rightarrow> error + (real \<times> real \<times> real)" where
  "lif_parameters nrn =
     (case py_div (C_som nrn) (g_leak_som nrn) of
        Inl e \<Rightarrow> Inl e
      | Inr tau_rc \<Rightarrow> Inr (tau_spike nrn + tau_ref nrn, tau_rc, threshold_current nrn))"

text \<open>
  \<open>lif_utils.lif_rate\<close> and \<open>lif_utils.lif_rate_inv\<close> (module \<open>nengo_bio.internal\<close>) are
  not among the sources: both are parameters here, functions of one array element and of
  \<open>tau_ref\<close> and \<open>tau_rc\<close>.  \<open>_lif_rate\<close> divides the array \<open>J\<close> by the Python float
  \<open>i_th\<close>, \<open>_lif_rate_inv\<close> multiplies by it.
\<close>

type_synonym rate_fun = "npfloat \<Rightarrow> real \<Rightarrow> real \<Rightarrow> npfloat"

definition lif_rate_of :: "rate_fun \<Rightarrow> neuron \<Rightarrow> npfloat list \<Rightarrow> error + npfloat list" where
  "lif_rate_of lif_rate nrn J =
     (case lif_parameters nrn of
        Inl e \<Rightarrow> Inl e
      | Inr (tau_ref', tau_rc, i_th) \<Rightarrow>
          Inr (map (\<lambda>j. lif_rate (np_div j (Some i_th)) tau_ref' tau_rc) J))"

definition lif_rate_inv_of :: "rate_fun \<Rightarrow> neuron \<Rightarrow> npfloat list \<Rightarrow> error + npfloat list" where
  "lif_rate_inv_of lif_rate_inv nrn a =
     (case lif_parameters nrn of
        Inl e \<Rightarrow> Inl e
      | Inr (tau_ref', tau_rc, i_th) \<Rightarrow>
          Inr (map (\<lambda>x. np_lift (*) (lif_rate_inv x tau_ref' tau_rc) (Some i_th)) a))"

text \<open>
  \<open>LIF.gain_bias\<close>.  \<open>inv_tau_ref\<close> is \<open>np.inf\<close> when \<open>tau_ref\<close> is not positive, and then
  no rate exceeds it.
\<close>

definition exceeds_inv_tau_ref :: "real \<Rightarrow> real \<Rightarrow> bool" where
  "exceeds_inv_tau_ref tau_ref' r \<longleftrightarrow> tau_ref' > 0 \<and> r > 1 / tau_ref'"

definition gain_bias ::
  "rate_fun \<Rightarrow> neuron \<Rightarrow> real list \<Rightarrow> real list \<Rightarrow> error + (npfloat list \<times> npfloat list)" where
  "gain_bias lif_rate_inv nrn max_rates intercepts =
     (case lif_parameters nrn of
        Inl e \<Rightarrow> Inl e
      | Inr (tau_ref', _, i_th) \<Rightarrow>
          if \<exists>r \<in> set max_rates. exceeds_inv_tau_ref tau_ref' r
          then Inl (ValidationError ''max_rates'')
          else
            (case lif_rate_inv_of lif_rate_inv nrn (map Some max_rates) of
               Inl e \<Rightarrow> Inl e
             | Inr i_max \<Rightarrow>
                 (case np_elementwise
                         (\<lambda>im c. np_div (np_lift (-) im (Some i_th)) (Some (1 - c)))
                         i_max intercepts of
                    Inl e \<Rightarrow> Inl e
                  | Inr gain \<Rightarrow>
                      (case np_elementwise (np_lift (-)) i_max gain of
                         Inl e \<Rightarrow> Inl e
                       | Inr bias \<Rightarrow> Inr (gain, bias)))))"

text \<open>
  The names bound in the module \<open>neurons.py\<close>: what it imports and the classes it
  defines.  A global name that is neither among them nor a builtin raises \<open>NameError\<close>
  when the statement using it runs.
\<close>

definition neurons_globals :: "string list" where
  "neurons_globals =
     [''np'', ''ValidationError'', ''NeuronType'', ''IntParam'', ''NumberParam'',
      ''Excitatory'', ''Inhibitory'', ''lif_utils'', ''multi_compartment_lif_parameters'',
      ''MultiChannelNeuronType'', ''LIF'', ''TwoCompLIF'']"

definition lookup_global :: "string \<Rightarrow> error + unit" where
  "lookup_global name = (if name \<in> set neurons_globals then Inr () else Inl (NameError name))"

text \<open>
  \<open>LIF.max_rates_intercepts\<close>.  The warning is \<open>warnings.warn(...)\<close>: the name
  \<open>warnings\<close> is looked up when a non-finite intercept has been found.
\<close>

definition max_rates_intercepts ::
  "rate_fun \<Rightarrow> neuron \<Rightarrow> real list \<Rightarrow> real list \<Rightarrow> error + (npfloat list \<times> npfloat list)" where
  "max_rates_intercepts lif_rate nrn gain bias =
     (case np_elementwise (\<lambda>g b. Some (g + b)) gain bias of
        Inl e \<Rightarrow> Inl e
      | Inr J \<Rightarrow>
          (case lif_rate_of lif_rate nrn J of
             Inl e \<Rightarrow> Inl e
           | Inr max_rates \<Rightarrow>
               (case np_elementwise
                       (\<lambda>b g. np_div (Some (threshold_current nrn - b)) (Some g)) bias gain of
                  Inl e \<Rightarrow> Inl e
                | Inr intercepts \<Rightarrow>
                    if \<not> list_all isfinite intercepts
                    then (case lookup_global ''warnings'' of
                            Inl e \<Rightarrow> Inl e
                          | Inr _ \<Rightarrow> Inr (max_rates, intercepts))
                    else Inr (max_rates, intercepts))))"

text \<open>
  What the two linear equations \<open>i_th = gain * intercept + bias\<close> and
  \<open>i_max = gain + bias\<close> ask of one element of the returned arrays.  A non-finite gain
  or bias satisfies neither (\<open>inf - inf\<close> and \<open>nan\<close> compare unequal to every number).
\<close>

definition solves_gain_bias :: "real \<Rightarrow> real \<Rightarrow> real \<Rightarrow> npfloat \<Rightarrow> npfloat \<Rightarrow> bool" where
  "solves_gain_bias i_th i_max c g b =
     (case (g, b) of
        (Some g', Some b') \<Rightarrow> i_th = g' * c + b' \<and> i_max = g' + b'
      | _ \<Rightarrow> False)"

text \<open>
  A stand-in for the absent \<open>lif_rate_inv\<close> and \<open>lif_rate\<close> at concrete inputs.  The
  theorems below hold for every such function.
\<close>

definition sample_rate_inv :: rate_fun where
  "sample_rate_inv a tau_ref' tau_rc = Some 2"

definition sample_rate :: rate_fun where
  "sample_rate x tau_ref' tau_rc = x"



section \<open>numpy arrays and the random generator\<close>

text \<open>
  A two-dimensional numpy array is its column count and its rows; the shape is
  \<open>(nrows, ncols)\<close>.  The column count is kept beside the rows because an array without
  rows still has one.  \<open>wf_mat\<close> says that every row has \<open>ncols\<close> entries.
\<close>

datatype 'a mat = Mat (ncols: nat) (rws: "'a list list")

definition nrows :: "'a mat \<Rightarrow> nat" where
  "nrows A = length (rws A)"

definition wf_mat :: "'a mat \<Rightarrow> bool" where
  "wf_mat A \<longleftrightarrow> (\<forall>r \<in> set (rws A). length r = ncols A)"

text \<open>
  \<open>rng\<close> is a \<open>numpy.random.RandomState\<close>: a sequence of raw draws and the number of
  draws consumed.  \<open>randint(low, high, n)\<close> returns \<open>n\<close> integers from \<open>[low, high)\<close>; it
  refuses an empty range unless no sample is taken.
\<close>

datatype rng = Rng (draws: "nat \<Rightarrow> nat") (pos: nat)

definition randint :: "rng \<Rightarrow> nat \<Rightarrow> nat \<Rightarrow> nat \<Rightarrow> error + (nat list \<times> rng)" where
  "randint g low high n =
     (if n = 0 then Inr ([], g)
      else if high \<le> low then Inl ValueError
      else Inr (map (\<lambda>k. low + draws g (pos g + k) mod (high - low)) [0..<n],
                Rng (draws g) (pos g + n)))"

text \<open>The local function \<open>choice(A, n)\<close>: \<open>A[rng.randint(0, A.shape[0], n)]\<close>.\<close>

definition choice :: "'a mat \<Rightarrow> nat \<Rightarrow> rng \<Rightarrow> error + ('a mat \<times> rng)" where
  "choice A n g =
     (case randint g 0 (nrows A) n of
        Inl e \<Rightarrow> Inl e
      | Inr (idx, g') \<Rightarrow> Inr (Mat (ncols A) (map (\<lambda>i. rws A ! i) idx), g'))"

text \<open>\<open>max\<close> of a Python list raises \<open>ValueError\<close> on the empty list.\<close>

definition py_max :: "nat list \<Rightarrow> error + nat" where
  "py_max ns = (case ns of [] \<Rightarrow> Inl ValueError | n # ns' \<Rightarrow> Inr (fold max ns' n))"

text \<open>
  \<open>np.empty((n, d))\<close> allocates without initialising: entry \<open>(i, j)\<close> is whatever the
  buffer held, \<open>junk i j\<close>.
\<close>

definition np_empty :: "(nat \<Rightarrow> nat \<Rightarrow> 'a) \<Rightarrow> nat \<Rightarrow> nat \<Rightarrow> 'a mat" where
  "np_empty junk n d = Mat d (map (\<lambda>i. map (junk i) [0..<d]) [0..<n])"

text \<open>
  \<open>np.concatenate(arrays, axis=0)\<close> appends the rows; it needs at least one array and
  equal column counts.  \<open>np.concatenate(arrays, axis=1)\<close> appends the columns row by
  row; it needs at least one array and equal row counts.
\<close>

definition np_concatenate0 :: "'a mat list \<Rightarrow> error + 'a mat" where
  "np_concatenate0 As =
     (case As of
        [] \<Rightarrow> Inl ValueError
      | A # _ \<Rightarrow>
          if \<forall>B \<in> set As. ncols B = ncols A
          then Inr (Mat (ncols A) (concat (map rws As)))
          else Inl ValueError)"

definition np_concatenate1 :: "'a mat list \<Rightarrow> error + 'a mat" where
  "np_concatenate1 As =
     (case As of
        [] \<Rightarrow> Inl ValueError
      | A # _ \<Rightarrow>
          if \<forall>B \<in> set As. nrows B = nrows A
          then Inr (Mat (sum_list (map ncols As))
                      (map (\<lambda>i. concat (map (\<lambda>B. rws B ! i) As)) [0..<nrows A]))
          else Inl ValueError)"

text \<open>
  The value of an assignment to a slice is stretched to the shape of the slice: an
  extent of one is repeated, any other extent must agree.
\<close>

definition broadcast_to :: "'a mat \<Rightarrow> nat \<Rightarrow> nat \<Rightarrow> error + 'a list list" where
  "broadcast_to v tr tc =
     (if (nrows v = tr \<or> nrows v = 1) \<and> (ncols v = tc \<or> ncols v = 1)
      then Inr (map (\<lambda>i. map (\<lambda>j. rws v ! (if nrows v = 1 then 0 else i)
                                        ! (if ncols v = 1 then 0 else j)) [0..<tc]) [0..<tr])
      else Inl ValueError)"

text \<open>
  \<open>A[r0:r1, c0:c1] = v\<close>.  The bounds of a slice are clipped to the array; an upper
  bound below the lower one gives an empty slice.
\<close>

definition assign_block :: "'a mat \<Rightarrow> nat \<Rightarrow> nat \<Rightarrow> nat \<Rightarrow> nat \<Rightarrow> 'a mat \<Rightarrow> error + 'a mat" where
  "assign_block A r0 r1 c0 c1 v =
     (let lo_r = min r0 (nrows A); hi_r = max lo_r (min r1 (nrows A));
          lo_c = min c0 (ncols A); hi_c = max lo_c (min c1 (ncols A))
      in case broadcast_to v (hi_r - lo_r) (hi_c - lo_c) of
           Inl e \<Rightarrow> Inl e
         | Inr w \<Rightarrow>
             Inr (Mat (ncols A)
                    (map (\<lambda>i. if lo_r \<le> i \<and> i < hi_r
                               then take lo_c (rws A ! i) @ w ! (i - lo_r) @ drop hi_c (rws A ! i)
                               else rws A ! i)
                       [0..<nrows A])))"

section \<open>Evaluation points of a MultiEnsemble\<close>

text \<open>
  Modelled from the spec: the class \<open>MultiEnsemble\<close> is not among the sources; the
  function below reads its attributes \<open>operator\<close>, \<open>objs\<close> and \<open>dimensions\<close>.  Section 3
  of the specification gives the population node as a tree over \<open>NONE\<close>, \<open>STACK\<close> and
  \<open>JOIN\<close>: a \<open>NONE\<close> node wraps one base population, the other two hold an ordered
  sequence of children.  Every node carries its \<open>dimensions\<close>.
\<close>

datatype mens =
    OpNone nat nat
  | OpStack "mens list" nat
  | OpJoin "mens list" nat

fun dimensions :: "mens \<Rightarrow> nat" where
  "dimensions (OpNone ens d) = d"
| "dimensions (OpStack objs d) = d"
| "dimensions (OpJoin objs d) = d"

text \<open>
  The loop of the \<open>OP_STACK\<close> branch over \<open>pnts_per_obj\<close>, with the column counter \<open>d\<close>.
  The right-hand side of the second assignment is evaluated, and draws from the
  generator, after the first assignment.
\<close>

fun stack_loop ::
  "real mat \<Rightarrow> nat \<Rightarrow> real mat list \<Rightarrow> nat \<Rightarrow> nat \<Rightarrow> rng \<Rightarrow> error + (real mat \<times> rng)" where
  "stack_loop pnts d [] n_eval_points max_n_pnts g = Inr (pnts, g)"
| "stack_loop pnts d (p # ps) n_eval_points max_n_pnts g =
     (let n_pnts = nrows p; n_dims = ncols p
      in if n_eval_points \<ge> max_n_pnts
         then (case assign_block pnts 0 n_pnts d (d + n_dims) p of
                 Inl e \<Rightarrow> Inl e
               | Inr pnts1 \<Rightarrow>
                   (case choice p (n_eval_points - n_pnts) g of
                      Inl e \<Rightarrow> Inl e
                    | Inr (c, g1) \<Rightarrow>
                        (case assign_block pnts1 n_pnts (nrows pnts1) d (d + n_dims) c of
                           Inl e \<Rightarrow> Inl e
                         | Inr pnts2 \<Rightarrow>
                             stack_loop pnts2 (d + n_dims) ps n_eval_points max_n_pnts g1)))
         else (case choice p n_eval_points g of
                 Inl e \<Rightarrow> Inl e
               | Inr (c, g1) \<Rightarrow>
                   (case assign_block pnts 0 (nrows pnts) d (d + n_dims) c of
                      Inl e \<Rightarrow> Inl e
                    | Inr pnts1 \<Rightarrow>
                        stack_loop pnts1 (d + n_dims) ps n_eval_points max_n_pnts g1)))"

text \<open>
  \<open>get_multi_ensemble_eval_points(model, mens, rng, n_eval_points)\<close>.  \<open>params\<close> is
  \<open>model.params[...].eval_points\<close> for the ensembles that have been built, \<open>junk\<close> the
  content of freshly allocated buffers.  \<open>fetch_points\<close> is the first loop of the
  \<open>STACK\<close>/\<open>JOIN\<close> branch: the recursive calls, in order, on one generator.
\<close>

fun get_multi_ensemble_eval_points ::
    "(nat \<rightharpoonup> real mat) \<Rightarrow> (nat \<Rightarrow> nat \<Rightarrow> real) \<Rightarrow> mens \<Rightarrow> rng \<Rightarrow> nat option
       \<Rightarrow> error + (real mat \<times> rng)"
  and fetch_points ::
    "(nat \<rightharpoonup> real mat) \<Rightarrow> (nat \<Rightarrow> nat \<Rightarrow> real) \<Rightarrow> mens list \<Rightarrow> rng \<Rightarrow> nat option
       \<Rightarrow> error + (real mat list \<times> rng)" where
  "get_multi_ensemble_eval_points params junk (OpNone ens d) g n_eval_points =
     (case params ens of
        None \<Rightarrow> Inl KeyError
      | Some pnts \<Rightarrow>
          (case n_eval_points of
             None \<Rightarrow> Inr (pnts, g)
           | Some n \<Rightarrow> choice pnts n g))"
| "get_multi_ensemble_eval_points params junk (OpStack objs d) g n_eval_points =
     (case fetch_points params junk objs g n_eval_points of
        Inl e \<Rightarrow> Inl e
      | Inr (pnts_per_obj, g1) \<Rightarrow>
          (case py_max (map nrows pnts_per_obj) of
             Inl e \<Rightarrow> Inl e
           | Inr max_n_pnts \<Rightarrow>
               stack_loop (np_empty junk max_n_pnts d) 0 pnts_per_obj
                 (case n_eval_points of None \<Rightarrow> max_n_pnts | Some n \<Rightarrow> n) max_n_pnts g1))"
| "get_multi_ensemble_eval_points params junk (OpJoin objs d) g n_eval_points =
     (case fetch_points params junk objs g n_eval_points of
        Inl e \<Rightarrow> Inl e
      | Inr (pnts_per_obj, g1) \<Rightarrow>
          (case py_max (map nrows pnts_per_obj) of
             Inl e \<Rightarrow> Inl e
           | Inr max_n_pnts \<Rightarrow>
               (case np_concatenate0 pnts_per_obj of
                  Inl e \<Rightarrow> Inl e
                | Inr A \<Rightarrow>
                    choice A (case n_eval_points of None \<Rightarrow> max_n_pnts | Some n \<Rightarrow> n) g1)))"
| "fetch_points params junk [] g n_eval_points = Inr ([], g)"
| "fetch_points params junk (obj # objs) g n_eval_points =
     (case get_multi_ensemble_eval_points params junk obj g n_eval_points of
        Inl e \<Rightarrow> Inl e
      | Inr (pnts, g1) \<Rightarrow>
          (case fetch_points params junk objs g1 n_eval_points of
             Inl e \<Rightarrow> Inl e
           | Inr (rest, g2) \<Rightarrow> Inr (pnts # rest, g2)))"

text \<open>
  The invariants of the population tree (section 3 of the specification): a \<open>STACK\<close>
  node's \<open>dimensions\<close> is the sum of its children's, the children of a \<open>JOIN\<close> node share
  its \<open>dimensions\<close>, and a \<open>NONE\<close> node has the dimensionality of its base population,
  whose evaluation points are a built, non-empty array of that many columns.
\<close>

fun wf_mens :: "(nat \<rightharpoonup> real mat) \<Rightarrow> mens \<Rightarrow> bool" where
  "wf_mens params (OpNone ens d) =
     (case params ens of
        None \<Rightarrow> False
      | Some pnts \<Rightarrow> wf_mat pnts \<and> ncols pnts = d \<and> 0 < nrows pnts)"
| "wf_mens params (OpStack objs d) =
     (objs \<noteq> [] \<and> (\<forall>c \<in> set objs. wf_mens params c) \<and> d = sum_list (map dimensions objs))"
| "wf_mens params (OpJoin objs d) =
     (objs \<noteq> [] \<and> (\<forall>c \<in> set objs. wf_mens params c \<and> dimensions c = d))"

text \<open>The rows of the slice \<open>A[:, c0:c1]\<close>.\<close>

definition np_cols :: "nat \<Rightarrow> nat \<Rightarrow> 'a mat \<Rightarrow> 'a list list" where
  "np_cols c0 c1 A = map (\<lambda>r. take (c1 - c0) (drop c0 r)) (rws A)"

text \<open>The column at which the block of child \<open>i\<close> starts: the dimensions of the children before it.\<close>

definition col_offset :: "mens list \<Rightarrow> nat \<Rightarrow> nat" where
  "col_offset objs i = sum_list (map dimensions (take i objs))"

text \<open>The row count the caller asked for, or the largest child count when it asked for none.\<close>

definition target_count :: "nat option \<Rightarrow> real mat list \<Rightarrow> nat" where
  "target_count n_eval_points pnts_per_obj =
     (case n_eval_points of None \<Rightarrow> Max (set (map nrows pnts_per_obj)) | Some n \<Rightarrow> n)"

text \<open>The array \<open>A\<close> with the columns \<open>c0\<close> to \<open>c1\<close> of every row \<open>i\<close> replaced by \<open>B ! i\<close>.\<close>

definition put_cols :: "nat \<Rightarrow> nat \<Rightarrow> 'a list list \<Rightarrow> 'a mat \<Rightarrow> 'a mat" where
  "put_cols c0 c1 B A =
     Mat (ncols A) (map (\<lambda>i. take c0 (rws A ! i) @ B ! i @ drop c1 (rws A ! i)) [0..<nrows A])"

text \<open>
  What a returned array must satisfy for the node it comes from: every row has the
  node's \<open>dimensions\<close> entries, and the row count is the requested one, or at least one
  when none was requested.
\<close>

definition rows_ok :: "nat option \<Rightarrow> real mat \<Rightarrow> bool" where
  "rows_ok n M = (case n of None \<Rightarrow> 0 < nrows M | Some k \<Rightarrow> nrows M = k)"

definition pts_ok :: "nat option \<Rightarrow> mens \<Rightarrow> real mat \<Rightarrow> bool" where
  "pts_ok n c M \<longleftrightarrow> wf_mat M \<and> ncols M = dimensions c \<and> rows_ok n M"

text \<open>
  Three built ensembles, of three, two and two evaluation points, a generator and a
  buffer content, for concrete runs.
\<close>

definition ens_points :: "nat \<rightharpoonup> real mat" where
  "ens_points =
     [0 \<mapsto> Mat 1 [[1], [2], [3]], 1 \<mapsto> Mat 2 [[10, 11], [20, 21]], 2 \<mapsto> Mat 1 [[7], [8]]]"

definition sample_rng :: rng where
  "sample_rng = Rng (\<lambda>k. 7 * k + 3) 0"

definition zero_junk :: "nat \<Rightarrow> nat \<Rightarrow> real" where
  "zero_junk i j = 0"

section \<open>Building a connection (\<open>builder/connection.py\<close>)\<close>

subsection \<open>More of numpy\<close>

definition transpose_mat :: "'a mat \<Rightarrow> 'a mat" where
  "transpose_mat A = Mat (nrows A) (map (\<lambda>j. map (\<lambda>r. r ! j) (rws A)) [0..<ncols A])"

definition np_neg :: "real mat \<Rightarrow> real mat" where
  "np_neg A = Mat (ncols A) (map (map uminus) (rws A))"

text \<open>\<open>np.dot(A, B)\<close> and \<open>A @ B\<close> of two-dimensional arrays: the inner extents must agree.\<close>

definition np_dot :: "real mat \<Rightarrow> real mat \<Rightarrow> error + real mat" where
  "np_dot A B =
     (if ncols A = nrows B
      then Inr (Mat (ncols B)
                  (map (\<lambda>r. map (\<lambda>j. sum_list (map2 (*) r (map (\<lambda>q. q ! j) (rws B))))
                                [0..<ncols B])
                     (rws A)))
      else Inl ValueError)"

text \<open>
  \<open>A * v\<close> for a two-dimensional \<open>A\<close> and a one-dimensional \<open>v\<close>: \<open>v\<close> runs along the
  columns; an extent of one on either side is stretched.  \<open>A += v\<close> works in place, so
  only \<open>v\<close> may be stretched.
\<close>

definition np_mul_rows :: "real mat \<Rightarrow> real list \<Rightarrow> error + real mat" where
  "np_mul_rows A v =
     (if length v = ncols A then Inr (Mat (ncols A) (map (\<lambda>r. map2 (*) r v) (rws A)))
      else if length v = 1 then Inr (Mat (ncols A) (map (map (\<lambda>x. x * hd v)) (rws A)))
      else if ncols A = 1
        then Inr (Mat (length v) (map (\<lambda>r. map (\<lambda>y. hd r * y) v) (rws A)))
      else Inl ValueError)"

definition np_iadd_rows :: "real mat \<Rightarrow> real list \<Rightarrow> error + real mat" where
  "np_iadd_rows A v =
     (if length v = ncols A then Inr (Mat (ncols A) (map (\<lambda>r. map2 (+) r v) (rws A)))
      else if length v = 1 then Inr (Mat (ncols A) (map (map (\<lambda>x. x + hd v)) (rws A)))
      else Inl ValueError)"

text \<open>\<open>A[:, d0:d1]\<close> as a value.\<close>

definition slice_cols :: "'a mat \<Rightarrow> nat \<Rightarrow> nat \<Rightarrow> 'a mat" where
  "slice_cols A d0 d1 =
     Mat (min d1 (ncols A) - min d0 (ncols A))
       (map (\<lambda>r. take (min d1 (ncols A) - min d0 (ncols A)) (drop d0 r)) (rws A))"

text \<open>
  \<open>np.array((np.concatenate(exc), np.concatenate(inh)), dtype=np.bool)\<close>: the two
  concatenations need at least one array each, and the two rows the same length.
\<close>

definition synapse_type_array :: "bool list list \<Rightarrow> bool list list \<Rightarrow> error + bool mat" where
  "synapse_type_array exc inh =
     (if exc = [] \<or> inh = [] then Inl ValueError
      else if length (concat exc) = length (concat inh)
        then Inr (Mat (length (concat exc)) [concat exc, concat inh])
      else Inl ValueError)"

subsection \<open>Arrays as objects\<close>

text \<open>
  The weight arrays are shared objects: the cache keeps them and the caller receives
  an array.  The store maps the address of a buffer to its content.  An array object
  is a window on a buffer, possibly transposed: slicing and \<open>.T\<close> give a new object on
  the same buffer (a view), \<open>np.copy\<close> and arithmetic give an object on a new buffer.
\<close>

record ndarray =
  buf :: nat
  row_lo :: nat
  row_hi :: nat
  transposed :: bool

definition whole :: "nat \<Rightarrow> real mat \<Rightarrow> ndarray" where
  "whole a A = \<lparr> buf = a, row_lo = 0, row_hi = nrows A, transposed = False \<rparr>"

text \<open>The content seen through a window on the buffer content \<open>B\<close>.\<close>

definition window :: "ndarray \<Rightarrow> real mat \<Rightarrow> real mat" where
  "window x B =
     (let rows = Mat (ncols B) (take (row_hi x - row_lo x) (drop (row_lo x) (rws B)))
      in if transposed x then transpose_mat rows else rows)"

text \<open>
  \<open>x[n0:n1]\<close> of an object that is not transposed narrows the window (the bounds are
  clipped to it); \<open>x.T\<close> flips the flag.  The builder slices only arrays that are not
  transposed.
\<close>

definition slice_rows :: "ndarray \<Rightarrow> nat \<Rightarrow> nat \<Rightarrow> ndarray" where
  "slice_rows x n0 n1 =
     (let lo = min (row_lo x + n0) (row_hi x);
          hi = max lo (min (row_lo x + n1) (row_hi x))
      in x\<lparr> row_lo := lo, row_hi := hi \<rparr>)"

definition np_T :: "ndarray \<Rightarrow> ndarray" where
  "np_T x = x\<lparr> transposed := \<not> transposed x \<rparr>"


subsection \<open>The model and the connection\<close>

datatype synapse_type = Excitatory | Inhibitory

text \<open>
  \<open>BuiltConnection\<close>: the two weight arrays (\<open>None\<close> until the build has stored them) and
  the two index maps.
\<close>

record built_connection =
  weights_exc :: "ndarray option"
  weights_inh :: "ndarray option"
  pre_idx_dim_map :: "(nat \<times> nat) list"
  pre_idx_neurons_map :: "(nat \<times> nat) list"

definition BuiltConnection :: built_connection where
  "BuiltConnection = \<lparr> weights_exc = None, weights_inh = None,
                        pre_idx_dim_map = [], pre_idx_neurons_map = [] \<rparr>"

definition weights :: "built_connection \<Rightarrow> synapse_type \<Rightarrow> ndarray option" where
  "weights bc t = (case t of Excitatory \<Rightarrow> weights_exc bc | Inhibitory \<Rightarrow> weights_inh bc)"

text \<open>What \<open>model.params\<close> holds for a built ensemble, as far as the builder reads it.\<close>

record built_ensemble =
  be_eval_points :: "real mat"
  be_synapse_exc :: "bool list"
  be_synapse_inh :: "bool list"
  be_encoders :: "real mat"
  be_gain :: "real list"
  be_bias :: "real list"

text \<open>An entry of \<open>conn.pre\<close>: the ensemble, \<open>size_out\<close> and \<open>neurons.size_out\<close>.\<close>

record pre_ens =
  pre_ensemble :: nat
  size_out :: nat
  neurons_size_out :: nat

text \<open>
  The high-level connection.  \<open>c_id\<close> is its identity, the key of \<open>model.params\<close>;
  \<open>transform_is_dense\<close> is \<open>isinstance(conn.transform, Dense)\<close>.
\<close>

record connection =
  c_id :: nat
  pre :: "pre_ens list"
  post_obj :: nat
  c_eval_points :: "real mat option"
  decode_bias :: bool
  transform_is_dense :: bool

record solver_wrapper =
  sw_connection :: connection
  sw_pre_idx :: nat
  sw_synapse_type :: synapse_type

text \<open>The operators of the model, as far as \<open>remove_bias_current\<close> tells them apart.\<close>

datatype signal = SigBias nat | SigIn nat | SigOther nat

datatype operator = Copy signal signal | Reset signal | OtherOp nat

text \<open>
  The mutable objects a call of \<open>build_solver\<close> can reach: the \<open>Model\<close> (its \<open>params\<close>, for
  ensembles and for connections, and its \<open>operators\<close>), the array store with its next
  free address, and the random generator.  \<open>builds\<close> and \<open>solves\<close> are bookkeeping that
  the source does not have: the connections for which the build branch has been
  entered, and those for which the external solver has been called, latest first.
\<close>

record state =
  ens_params :: "nat \<rightharpoonup> built_ensemble"
  conn_params :: "nat \<rightharpoonup> built_connection"
  operators :: "operator list"
  arrays :: "nat \<rightharpoonup> real mat"
  fresh :: nat
  generator :: rng
  builds :: "nat list"
  solves :: "nat list"

definition empty_model :: "rng \<Rightarrow> state" where
  "empty_model g = \<lparr> ens_params = Map.empty, conn_params = Map.empty, operators = [],
                      arrays = Map.empty, fresh = 0, generator = g, builds = [], solves = [] \<rparr>"

text \<open>A new array object on a new buffer.\<close>

definition alloc :: "real mat \<Rightarrow> state \<Rightarrow> ndarray \<times> state" where
  "alloc A s = (whole (fresh s) A,
                s\<lparr> arrays := (arrays s)(fresh s \<mapsto> A), fresh := Suc (fresh s) \<rparr>)"

definition read_array :: "state \<Rightarrow> ndarray \<Rightarrow> real mat option" where
  "read_array s x = map_option (window x) (arrays s (buf x))"

text \<open>\<open>np.copy(x)\<close>: the content seen through \<open>x\<close>, on a new buffer.\<close>

definition np_copy :: "ndarray \<Rightarrow> state \<Rightarrow> error + (ndarray \<times> state)" where
  "np_copy x s = (case read_array s x of None \<Rightarrow> Inl KeyError | Some A \<Rightarrow> Inr (alloc A s))"

text \<open>Any in-place change of the array \<open>x\<close>: its buffer gets the content \<open>f\<close> makes of the old one.\<close>

definition mutate :: "ndarray \<Rightarrow> (real mat \<Rightarrow> real mat) \<Rightarrow> state \<Rightarrow> state" where
  "mutate x f s =
     (case arrays s (buf x) of
        None \<Rightarrow> s
      | Some B \<Rightarrow> s\<lparr> arrays := (arrays s)(buf x \<mapsto> f B) \<rparr>)"

text \<open>
  What the builder takes from nengo and from the solver, as parameters:
  \<open>get_activities\<close>, \<open>get_targets\<close>, \<open>conn.transform.sample(rng)\<close> and the wrapped solver,
  which may raise.  The last two use the generator.
\<close>

record ext =
  get_activities :: "built_ensemble \<Rightarrow> pre_ens \<Rightarrow> real mat \<Rightarrow> real mat"
  get_targets :: "connection \<Rightarrow> real mat \<Rightarrow> real mat"
  sample_transform :: "connection \<Rightarrow> rng \<Rightarrow> real mat \<times> rng"
  solve :: "real mat \<Rightarrow> real mat \<Rightarrow> bool mat \<Rightarrow> rng \<Rightarrow> error + ((real mat \<times> real mat) \<times> rng)"

subsection \<open>\<open>remove_bias_current\<close>\<close>

text \<open>
  The first \<open>Copy\<close> from the bias signal to the input signal of the ensemble is deleted
  and a \<open>Reset\<close> of the input signal is added at the end of the operators.
\<close>

fun delete_first :: "operator \<Rightarrow> operator list \<Rightarrow> operator list option" where
  "delete_first op [] = None"
| "delete_first op (x # xs) =
     (if x = op then Some xs else map_option ((#) x) (delete_first op xs))"

definition remove_bias_current :: "state \<Rightarrow> nat \<Rightarrow> bool \<times> state" where
  "remove_bias_current s ens =
     (case delete_first (Copy (SigBias ens) (SigIn ens)) (operators s) of
        None \<Rightarrow> (False, s)
      | Some ops \<Rightarrow> (True, s\<lparr> operators := ops @ [Reset (SigIn ens)] \<rparr>))"

subsection \<open>\<open>build_solver\<close>\<close>

text \<open>
  The variables of the loop over \<open>conn.pre\<close>.  The lists grow in the order of the
  entries; \<open>l_eval_points\<close> is the loop variable \<open>eval_points\<close>, unbound before the first
  pass and holding the array of the last entry after the loop.
\<close>

record loop_vars =
  l_d1 :: nat
  l_n1 :: nat
  l_eval_points_list :: "real mat list"
  l_activities_list :: "real mat list"
  l_dim_map :: "(nat \<times> nat) list"
  l_neurons_map :: "(nat \<times> nat) list"
  l_synapse_exc :: "bool list list"
  l_synapse_inh :: "bool list list"
  l_eval_points :: "real mat option"

definition loop_init :: loop_vars where
  "loop_init = \<lparr> l_d1 = 0, l_n1 = 0, l_eval_points_list = [], l_activities_list = [],
                  l_dim_map = [], l_neurons_map = [], l_synapse_exc = [], l_synapse_inh = [],
                  l_eval_points = None \<rparr>"

fun pre_loop :: "ext \<Rightarrow> state \<Rightarrow> connection \<Rightarrow> pre_ens list \<Rightarrow> loop_vars \<Rightarrow> error + loop_vars" where
  "pre_loop x s conn [] v = Inr v"
| "pre_loop x s conn (pre_i # rest) v =
     (let d0 = l_d1 v; d1 = l_d1 v + size_out pre_i;
          n0 = l_n1 v; n1 = l_n1 v + neurons_size_out pre_i
      in case ens_params s (pre_ensemble pre_i) of
           None \<Rightarrow> Inl KeyError
         | Some built_pre_ens \<Rightarrow>
             (let eval_points =
                    (case c_eval_points conn of
                       None \<Rightarrow> be_eval_points built_pre_ens
                     | Some E \<Rightarrow> slice_cols E d0 d1);
                  activities = get_activities x built_pre_ens pre_i eval_points
              in pre_loop x s conn rest
                   \<lparr> l_d1 = d1, l_n1 = n1,
                     l_eval_points_list = l_eval_points_list v @ [eval_points],
                     l_activities_list = l_activities_list v @ [activities],
                     l_dim_map = l_dim_map v @ [(d0, d1)],
                     l_neurons_map = l_neurons_map v @ [(n0, n1)],
                     l_synapse_exc = l_synapse_exc v @ [be_synapse_exc built_pre_ens],
                     l_synapse_inh = l_synapse_inh v @ [be_synapse_inh built_pre_ens],
                     l_eval_points = Some eval_points \<rparr>))"

text \<open>
  The condition of the check after the loop,
  \<open>len(set(map(lambda x: x.shape[0], eval_points))) > 1\<close>.  It iterates over
  \<open>eval_points\<close>, the array of the last entry: \<open>x\<close> is a row of that array and
  \<open>x.shape[0]\<close> the length of the row.
\<close>

definition counts_differ :: "real mat \<Rightarrow> bool" where
  "counts_differ eval_points \<longleftrightarrow> length (remdups (map length (rws eval_points))) > 1"

definition count_mismatch :: error where
  "count_mismatch =
     BuildError ''The number of evaluation points must be the same for all pre-objects''"

text \<open>The loop, the check and the three concatenations.\<close>

definition gather ::
  "ext \<Rightarrow> state \<Rightarrow> connection
     \<Rightarrow> error + (real mat \<times> real mat \<times> bool mat \<times> (nat \<times> nat) list \<times> (nat \<times> nat) list)" where
  "gather x s conn =
     (case pre_loop x s conn (pre conn) loop_init of
        Inl e \<Rightarrow> Inl e
      | Inr v \<Rightarrow>
          (case l_eval_points v of
             None \<Rightarrow> Inl (NameError ''eval_points'')
           | Some last_eval_points \<Rightarrow>
               if counts_differ last_eval_points then Inl count_mismatch
               else
                 (case np_concatenate1 (l_eval_points_list v) of
                    Inl e \<Rightarrow> Inl e
                  | Inr eval_points \<Rightarrow>
                      (case np_concatenate1 (l_activities_list v) of
                         Inl e \<Rightarrow> Inl e
                       | Inr activities \<Rightarrow>
                           (case synapse_type_array (l_synapse_exc v) (l_synapse_inh v) of
                              Inl e \<Rightarrow> Inl e
                            | Inr synapse_types \<Rightarrow>
                                Inr (eval_points, activities, synapse_types,
                                     l_dim_map v, l_neurons_map v))))))"

text \<open>
  From the targets to the target currents: the transform, the encoders and the gain
  of the target ensemble, and its bias when \<open>decode_bias\<close> is set.
\<close>

definition project_targets ::
  "state \<Rightarrow> connection \<Rightarrow> real mat \<Rightarrow> real mat \<Rightarrow> error + real mat" where
  "project_targets s conn targets transform =
     (case np_dot targets (transpose_mat transform) of
        Inl e \<Rightarrow> Inl e
      | Inr targets' \<Rightarrow>
          (case ens_params s (post_obj conn) of
             None \<Rightarrow> Inl KeyError
           | Some built_post_ens \<Rightarrow>
               (case np_dot targets' (transpose_mat (be_encoders built_post_ens)) of
                  Inl e \<Rightarrow> Inl e
                | Inr t \<Rightarrow>
                    (case np_mul_rows t (be_gain built_post_ens) of
                       Inl e \<Rightarrow> Inl e
                     | Inr tc \<Rightarrow>
                         if decode_bias conn
                         then np_iadd_rows tc (be_bias built_post_ens)
                         else Inr tc))))"

text \<open>
  The targets, the check of the transform, and the sampled transform.  Sampling
  advances the generator, also when a later step raises.
\<close>

definition target_currents ::
  "ext \<Rightarrow> state \<Rightarrow> connection \<Rightarrow> real mat \<Rightarrow> (error + real mat) \<times> state" where
  "target_currents x s conn eval_points =
     (let targets = get_targets x conn eval_points
      in if \<not> transform_is_dense conn
         then (Inl (BuildError ''Non-compositional solvers only work with Dense transforms''), s)
         else
           (let (transform, g) = sample_transform x conn (generator s)
            in (project_targets s conn targets transform, s\<lparr> generator := g \<rparr>)))"

text \<open>
  The four assignments to the \<open>BuiltConnection\<close>.  The solver's two arrays and the
  negated one are new arrays; the entry of \<open>model.params\<close> is the object assigned to.
\<close>

definition store_weights ::
  "connection \<Rightarrow> real mat \<Rightarrow> real mat \<Rightarrow> (nat \<times> nat) list \<Rightarrow> (nat \<times> nat) list \<Rightarrow> state
     \<Rightarrow> built_connection \<times> state" where
  "store_weights conn WE WI dim_map neurons_map s =
     (let (we, s1) = alloc WE s;
          (wi, s2) = alloc WI s1;
          (neg_wi, s3) = alloc (np_neg WI) s2;
          bc = \<lparr> weights_exc = Some we, weights_inh = Some neg_wi,
                 pre_idx_dim_map = dim_map, pre_idx_neurons_map = neurons_map \<rparr>
      in (bc, s3\<lparr> conn_params := (conn_params s3)(c_id conn \<mapsto> bc) \<rparr>))"

text \<open>
  The body of the branch \<open>if not conn in model.params\<close> after the bias current has been
  removed, up to the assignments.
\<close>

definition build_connection ::
  "ext \<Rightarrow> state \<Rightarrow> connection \<Rightarrow> (error + built_connection) \<times> state" where
  "build_connection x s conn =
     (case gather x s conn of
        Inl e \<Rightarrow> (Inl e, s)
      | Inr (eval_points, activities, synapse_types, dim_map, neurons_map) \<Rightarrow>
          (case target_currents x s conn eval_points of
             (Inl e, s1) \<Rightarrow> (Inl e, s1)
           | (Inr tc, s1) \<Rightarrow>
               (case solve x activities tc synapse_types (generator s1) of
                  Inl e \<Rightarrow> (Inl e, s1\<lparr> solves := c_id conn # solves s1 \<rparr>)
                | Inr ((WE, WI), g) \<Rightarrow>
                    (let (bc, s2) =
                           store_weights conn WE WI dim_map neurons_map
                             (s1\<lparr> generator := g, solves := c_id conn # solves s1 \<rparr>)
                     in (Inr bc, s2)))))"

text \<open>
  The last lines of \<open>build_solver\<close>: the two size lookups (of which only the indexing
  of \<open>conn.pre_obj\<close> can raise), the neuron range of the selected entry, and
  \<open>np.copy(bc.weights[solver.synapse_type][n0:n1].T)\<close>.
\<close>

definition lookup_weights ::
  "state \<Rightarrow> solver_wrapper \<Rightarrow> built_connection \<Rightarrow> (error + ndarray) \<times> state" where
  "lookup_weights s sw bc =
     (if sw_pre_idx sw \<ge> length (pre (sw_connection sw)) then (Inl IndexError, s)
      else if sw_pre_idx sw \<ge> length (pre_idx_neurons_map bc) then (Inl IndexError, s)
      else
        (let (n0, n1) = pre_idx_neurons_map bc ! sw_pre_idx sw
         in case weights bc (sw_synapse_type sw) of
              None \<Rightarrow> (Inl TypeError, s)
            | Some w \<Rightarrow>
                (case np_copy (np_T (slice_rows w n0 n1)) s of
                   Inl e \<Rightarrow> (Inl e, s)
                 | Inr (W, s') \<Rightarrow> (Inr W, s'))))"

text \<open>
  \<open>build_solver(model, solver, _, rng)\<close>; the result is the \<open>W\<close> of the returned triple.
  The empty \<open>BuiltConnection\<close> enters \<open>model.params\<close> before anything is built, and stays
  there when the build raises.  \<open>enter_build\<close> is the state in which the build starts:
  the empty entry stored and the bias current of the target removed.
\<close>

definition enter_build :: "state \<Rightarrow> connection \<Rightarrow> state" where
  "enter_build s conn =
     (let s1 = s\<lparr> conn_params := (conn_params s)(c_id conn \<mapsto> BuiltConnection),
                 builds := c_id conn # builds s \<rparr>
      in if decode_bias conn then snd (remove_bias_current s1 (post_obj conn)) else s1)"

definition build_solver :: "ext \<Rightarrow> state \<Rightarrow> solver_wrapper \<Rightarrow> (error + ndarray) \<times> state" where
  "build_solver x s sw =
     (let conn = sw_connection sw
      in case conn_params s (c_id conn) of
           None \<Rightarrow>
             (case build_connection x (enter_build s conn) conn of
                (Inl e, s3) \<Rightarrow> (Inl e, s3)
              | (Inr built_connection, s3) \<Rightarrow> lookup_weights s3 sw built_connection)
         | Some built_connection \<Rightarrow> lookup_weights s sw built_connection)"


subsection \<open>Properties of the model state\<close>

text \<open>The array objects that the cache of built connections holds.\<close>

definition cached_arrays :: "state \<Rightarrow> ndarray set" where
  "cached_arrays s =
     {w. \<exists>c bc. conn_params s c = Some bc \<and> (weights_exc bc = Some w \<or> weights_inh bc = Some w)}"

text \<open>An array object that shows the whole of the buffer content \<open>B\<close>, not transposed.\<close>

definition is_whole :: "ndarray \<Rightarrow> real mat \<Rightarrow> bool" where
  "is_whole w B \<longleftrightarrow> row_lo w = 0 \<and> row_hi w = nrows B \<and> \<not> transposed w"

text \<open>
  The store is consistent: every buffer in use lies below the next free address, and
  every cached weight array is a whole array on a buffer in use.
\<close>

definition store_inv :: "state \<Rightarrow> bool" where
  "store_inv s \<longleftrightarrow>
     (\<forall>a. arrays s a \<noteq> None \<longrightarrow> a < fresh s) \<and>
     (\<forall>w \<in> cached_arrays s. \<exists>B. arrays s (buf w) = Some B \<and> is_whole w B)"

text \<open>
  The bookkeeping is consistent: no connection has entered the build branch twice,
  every connection that has entered it is in the cache, and the solver has been called
  at most once, and only for connections that entered the build branch.
\<close>

definition once_inv :: "state \<Rightarrow> bool" where
  "once_inv s \<longleftrightarrow>
     distinct (builds s) \<and> set (builds s) \<subseteq> dom (conn_params s) \<and>
     distinct (solves s) \<and> set (solves s) \<subseteq> set (builds s)"



text \<open>The evaluation points of a source ensemble as the model has built them.\<close>

definition built_points :: "state \<Rightarrow> pre_ens \<Rightarrow> real mat" where
  "built_points s p =
     (case ens_params s (pre_ensemble p) of None \<Rightarrow> Mat 0 [] | Some b \<Rightarrow> be_eval_points b)"

subsection \<open>A model with two source ensembles, for concrete runs\<close>

text \<open>
  Ensembles \<open>0\<close> and \<open>1\<close> feed ensemble \<open>2\<close>.  \<open>sample_ext\<close> stands in for nengo and for the
  solver: every neuron's activity is the sum of the point's coordinates, targets and
  transform are the identity, and the solver returns two fixed nonnegative arrays with
  one row per source neuron.  In \<open>mismatched_model\<close> ensemble \<open>1\<close> has three evaluation
  points where ensemble \<open>0\<close> has two.
\<close>

definition sample_ensemble :: "real mat \<Rightarrow> bool list \<Rightarrow> bool list \<Rightarrow> built_ensemble" where
  "sample_ensemble pts exc inh =
     \<lparr> be_eval_points = pts, be_synapse_exc = exc, be_synapse_inh = inh,
       be_encoders = Mat 2 [[1, 0], [0, 1]], be_gain = [1, 1], be_bias = [0, 0] \<rparr>"

definition two_ens_model :: state where
  "two_ens_model = (empty_model sample_rng)
     \<lparr> ens_params :=
         [0 \<mapsto> sample_ensemble (Mat 1 [[1], [2]]) [True, True] [False, False],
          1 \<mapsto> sample_ensemble (Mat 1 [[3], [4]]) [False] [True],
          2 \<mapsto> sample_ensemble (Mat 2 [[0, 0]]) [True, True] [True, True]],
       operators := [Copy (SigBias 2) (SigIn 2), OtherOp 0] \<rparr>"

definition mismatched_model :: state where
  "mismatched_model = two_ens_model
     \<lparr> ens_params := (ens_params two_ens_model)
         (1 \<mapsto> sample_ensemble (Mat 1 [[3], [4], [5]]) [False] [True]) \<rparr>"

definition sample_conn :: connection where
  "sample_conn =
     \<lparr> c_id = 7,
       pre = [\<lparr> pre_ensemble = 0, size_out = 1, neurons_size_out = 2 \<rparr>,
              \<lparr> pre_ensemble = 1, size_out = 1, neurons_size_out = 1 \<rparr>],
       post_obj = 2, c_eval_points = None, decode_bias = True, transform_is_dense = True \<rparr>"

definition sample_request :: "nat \<Rightarrow> synapse_type \<Rightarrow> solver_wrapper" where
  "sample_request i t = \<lparr> sw_connection = sample_conn, sw_pre_idx = i, sw_synapse_type = t \<rparr>"

definition sample_WE :: "real mat" where
  "sample_WE = Mat 2 [[1, 2], [3, 4], [5, 6]]"

definition sample_WI :: "real mat" where
  "sample_WI = Mat 2 [[1, 0], [0, 1], [2, 2]]"

definition sample_activities :: "built_ensemble \<Rightarrow> pre_ens \<Rightarrow> real mat \<Rightarrow> real mat" where
  "sample_activities b p E =
     Mat (neurons_size_out p) (map (\<lambda>r. replicate (neurons_size_out p) (sum_list r)) (rws E))"

definition sample_targets :: "connection \<Rightarrow> real mat \<Rightarrow> real mat" where
  "sample_targets c E = E"

definition sample_transform_fn :: "connection \<Rightarrow> rng \<Rightarrow> real mat \<times> rng" where
  "sample_transform_fn c g = (Mat 2 [[1, 0], [0, 1]], g)"

definition sample_solve ::
  "real mat \<Rightarrow> real mat \<Rightarrow> bool mat \<Rightarrow> rng \<Rightarrow> error + ((real mat \<times> real mat) \<times> rng)" where
  "sample_solve A T S g = Inr ((sample_WE, sample_WI), g)"

definition sample_ext :: ext where
  "sample_ext = \<lparr> get_activities = sample_activities, get_targets = sample_targets,
                   sample_transform = sample_transform_fn, solve = sample_solve \<rparr>"

text \<open>The model after a first weight request has built the connection.\<close>

definition after_first_request :: state where
  "after_first_request = snd (build_solver sample_ext two_ens_model (sample_request 0 Excitatory))"



section \<open>Properties\<close>

subsection \<open>The reference integrator\<close>











subsection \<open>Gain and bias\<close>

lemma lif_parameters_ok:
  "g_leak_som nrn \<noteq> 0 \<Longrightarrow>
     lif_parameters nrn =
       Inr (tau_spike nrn + tau_ref nrn, C_som nrn / g_leak_som nrn, threshold_current nrn)"
  by (simp add: lif_parameters_def py_div_def)

lemma np_elementwise_same_length:
  "length xs = length ys \<Longrightarrow> np_elementwise f xs ys = Inr (map2 f xs ys)"
  by (simp add: np_elementwise_def)

lemma gain_bias_validation:
  assumes "g_leak_som nrn \<noteq> 0" and "r \<in> set max_rates"
    and "0 < tau_spike nrn + tau_ref nrn" and "1 / (tau_spike nrn + tau_ref nrn) < r"
  shows "gain_bias lif_rate_inv nrn max_rates intercepts = Inl (ValidationError ''max_rates'')"
proof -
  have "\<exists>r \<in> set max_rates. exceeds_inv_tau_ref (tau_spike nrn + tau_ref nrn) r"
    using assms by (auto simp: exceeds_inv_tau_ref_def)
  then show ?thesis
    using assms(1) by (simp add: gain_bias_def lif_parameters_ok)
qed

lemma gain_bias_value:
  assumes g: "g_leak_som nrn \<noteq> 0"
    and len: "length max_rates = length intercepts"
    and below: "\<forall>r \<in> set max_rates. \<not> exceeds_inv_tau_ref (tau_spike nrn + tau_ref nrn) r"
  shows "gain_bias lif_rate_inv nrn max_rates intercepts =
     (let i_th = threshold_current nrn;
          i_max = map (\<lambda>r. np_lift (*) (lif_rate_inv (Some r) (tau_spike nrn + tau_ref nrn)
                     (C_som nrn / g_leak_som nrn)) (Some i_th)) max_rates;
          gain = map2 (\<lambda>im c. np_div (np_lift (-) im (Some i_th)) (Some (1 - c))) i_max intercepts
      in Inr (gain, map2 (np_lift (-)) i_max gain))"
  using g len below
  by (simp add: gain_bias_def lif_parameters_ok lif_rate_inv_of_def np_elementwise_same_length
      Let_def comp_def)

text \<open>The algebra of one element: the computed gain and bias solve both equations.\<close>

lemma solves_element:
  assumes "c \<noteq> 1"
  shows "solves_gain_bias i_th i_max c
           (np_div (np_lift (-) (Some i_max) (Some i_th)) (Some (1 - c)))
           (np_lift (-) (Some i_max)
              (np_div (np_lift (-) (Some i_max) (Some i_th)) (Some (1 - c))))"
proof -
  have nz: "1 - c \<noteq> 0" using assms by simp
  define g where "g = (i_max - i_th) / (1 - c)"
  have "g * (1 - c) = i_max - i_th"
    using nz by (simp add: g_def)
  then have "g * c + (i_max - g) = i_th"
    by (simp add: algebra_simps)
  then have "(i_max - i_th) / (1 - c) * c + (i_max - (i_max - i_th) / (1 - c)) = i_th"
    by (simp add: g_def)
  then show ?thesis
    using nz by (simp add: solves_gain_bias_def np_div_def np_lift_def)
qed

text \<open>
  Claim C7, as amended.  Let \<open>g_leak_som\<close> be non-zero and the two arrays have the same
  length.  If every requested maximum rate is below \<open>1 / (tau_ref + tau_spike)\<close>, then
  \<open>gain_bias\<close> returns a gain and a bias array of that length, and at every index whose
  intercept is not \<open>1\<close> and whose \<open>i_max\<close> (the inverse rate function at the requested
  rate, times \<open>i_th\<close>) is finite, gain and bias are finite and satisfy
  \<open>i_th = gain * intercept + bias\<close> and \<open>i_max = gain + bias\<close>, with
  \<open>i_th = (v_th - E_rev_leak) * g_leak_som\<close>.  If some requested rate is above
  \<open>1 / (tau_ref + tau_spike)\<close>, \<open>gain_bias\<close> raises the validation error.
\<close>

theorem gain_bias_solves_equations:
  assumes g: "g_leak_som nrn \<noteq> 0"
    and len: "length max_rates = length intercepts"
  shows
    "((\<forall>r \<in> set max_rates.
          0 < tau_spike nrn + tau_ref nrn \<longrightarrow> r < 1 / (tau_spike nrn + tau_ref nrn)) \<longrightarrow>
       (\<exists>gain bias.
          gain_bias lif_rate_inv nrn max_rates intercepts = Inr (gain, bias) \<and>
          length gain = length max_rates \<and> length bias = length max_rates \<and>
          (\<forall>i < length max_rates. \<forall>x.
             intercepts ! i \<noteq> 1 \<longrightarrow>
             lif_rate_inv (Some (max_rates ! i)) (tau_spike nrn + tau_ref nrn)
                (C_som nrn / g_leak_som nrn) = Some x \<longrightarrow>
             solves_gain_bias (threshold_current nrn) (x * threshold_current nrn)
                (intercepts ! i) (gain ! i) (bias ! i))))
     \<and> ((\<exists>r \<in> set max_rates.
            0 < tau_spike nrn + tau_ref nrn \<and> 1 / (tau_spike nrn + tau_ref nrn) < r) \<longrightarrow>
          gain_bias lif_rate_inv nrn max_rates intercepts = Inl (ValidationError ''max_rates''))"
proof (intro conjI impI)
  assume below: "\<forall>r \<in> set max_rates.
      0 < tau_spike nrn + tau_ref nrn \<longrightarrow> r < 1 / (tau_spike nrn + tau_ref nrn)"
  then have nex: "\<forall>r \<in> set max_rates. \<not> exceeds_inv_tau_ref (tau_spike nrn + tau_ref nrn) r"
    by (auto simp: exceeds_inv_tau_ref_def)
  define i_th where "i_th = threshold_current nrn"
  define i_max where
    "i_max = map (\<lambda>r. np_lift (*) (lif_rate_inv (Some r) (tau_spike nrn + tau_ref nrn)
                     (C_som nrn / g_leak_som nrn)) (Some i_th)) max_rates"
  define gain where
    "gain = map2 (\<lambda>im c. np_div (np_lift (-) im (Some i_th)) (Some (1 - c))) i_max intercepts"
  define bias where "bias = map2 (np_lift (-)) i_max gain"
  have eq: "gain_bias lif_rate_inv nrn max_rates intercepts = Inr (gain, bias)"
    using gain_bias_value [OF g len nex, of lif_rate_inv]
    by (simp add: Let_def gain_def bias_def i_max_def i_th_def)
  have lg: "length gain = length max_rates" and lb: "length bias = length max_rates"
    using len by (simp_all add: gain_def bias_def i_max_def)
  have sol: "solves_gain_bias (threshold_current nrn) (x * threshold_current nrn)
                (intercepts ! i) (gain ! i) (bias ! i)"
    if i: "i < length max_rates" and c: "intercepts ! i \<noteq> 1"
      and x: "lif_rate_inv (Some (max_rates ! i)) (tau_spike nrn + tau_ref nrn)
                (C_som nrn / g_leak_som nrn) = Some x" for i x
  proof -
    have im: "i_max ! i = Some (x * i_th)"
      using i x by (simp add: i_max_def np_lift_def)
    have gi: "gain ! i =
        np_div (np_lift (-) (Some (x * i_th)) (Some i_th)) (Some (1 - intercepts ! i))"
      using i len im by (simp add: gain_def i_max_def)
    have bi: "bias ! i = np_lift (-) (Some (x * i_th)) (gain ! i)"
      using i len im lg by (simp add: bias_def i_max_def)
    show ?thesis
      using solves_element [OF c, of i_th "x * i_th"] by (simp add: gi bi i_th_def)
  qed
  show "\<exists>gain bias.
          gain_bias lif_rate_inv nrn max_rates intercepts = Inr (gain, bias) \<and>
          length gain = length max_rates \<and> length bias = length max_rates \<and>
          (\<forall>i < length max_rates. \<forall>x.
             intercepts ! i \<noteq> 1 \<longrightarrow>
             lif_rate_inv (Some (max_rates ! i)) (tau_spike nrn + tau_ref nrn)
                (C_som nrn / g_leak_som nrn) = Some x \<longrightarrow>
             solves_gain_bias (threshold_current nrn) (x * threshold_current nrn)
                (intercepts ! i) (gain ! i) (bias ! i))"
    using eq lg lb sol by blast
next
  assume "\<exists>r \<in> set max_rates.
      0 < tau_spike nrn + tau_ref nrn \<and> 1 / (tau_spike nrn + tau_ref nrn) < r"
  then show "gain_bias lif_rate_inv nrn max_rates intercepts = Inl (ValidationError ''max_rates'')"
    using gain_bias_validation [OF g] by blast
qed

theorem gain_bias_solves_equations_witness:
  "g_leak_som default_neuron \<noteq> 0 \<and> length [100::real] = length [1/2::real] \<and>
   (\<exists>gain bias.
      gain_bias sample_rate_inv default_neuron [100] [1/2] = Inr (gain, bias) \<and>
      solves_gain_bias (threshold_current default_neuron) (2 * threshold_current default_neuron)
        (1/2) (gain ! 0) (bias ! 0)) \<and>
   gain_bias sample_rate_inv default_neuron [400] [1/2] = Inl (ValidationError ''max_rates'')"
proof -
  have g: "g_leak_som default_neuron \<noteq> 0"
    by (simp add: default_neuron_def)
  have len: "length [100::real] = length [1/2::real]"
    and len': "length [400::real] = length [1/2::real]"
    by simp_all
  have below: "\<forall>r \<in> set [100::real].
      0 < tau_spike default_neuron + tau_ref default_neuron \<longrightarrow>
      r < 1 / (tau_spike default_neuron + tau_ref default_neuron)"
    by (simp add: default_neuron_def)
  have above: "\<exists>r \<in> set [400::real].
      0 < tau_spike default_neuron + tau_ref default_neuron \<and>
      1 / (tau_spike default_neuron + tau_ref default_neuron) < r"
    by (simp add: default_neuron_def)
  from gain_bias_solves_equations [OF g len, of sample_rate_inv] below
  obtain gain bias where
    gb: "gain_bias sample_rate_inv default_neuron [100] [1/2] = Inr (gain, bias)"
    and sol: "\<forall>i < length [100::real]. \<forall>x.
             [1/2::real] ! i \<noteq> 1 \<longrightarrow>
             sample_rate_inv (Some ([100] ! i))
                (tau_spike default_neuron + tau_ref default_neuron)
                (C_som default_neuron / g_leak_som default_neuron) = Some x \<longrightarrow>
             solves_gain_bias (threshold_current default_neuron)
                (x * threshold_current default_neuron) ([1/2] ! i) (gain ! i) (bias ! i)"
    by blast
  from sol have "solves_gain_bias (threshold_current default_neuron)
        (2 * threshold_current default_neuron) (1/2) (gain ! 0) (bias ! 0)"
    by (simp add: sample_rate_inv_def)
  moreover from gain_bias_solves_equations [OF g len', of sample_rate_inv] above
  have "gain_bias sample_rate_inv default_neuron [400] [1/2] = Inl (ValidationError ''max_rates'')"
    by blast
  ultimately show ?thesis
    using g gb by auto
qed

text \<open>
  The claim as stated fails at the intercept \<open>1\<close>: the requested rate \<open>100\<close> is below
  \<open>1 / (tau_ref + tau_spike)\<close>, the division by \<open>1 - intercept\<close> is a division by zero,
  and the returned gain and bias are non-finite.
\<close>

theorem gain_bias_intercept_one_counterexample:
  "(100::real) < 1 / (tau_ref default_neuron + tau_spike default_neuron) \<and>
   gain_bias sample_rate_inv default_neuron [100] [1] = Inr ([None], [None]) \<and>
   \<not> solves_gain_bias (threshold_current default_neuron) (2 * threshold_current default_neuron)
        1 None None"
  by (simp add: gain_bias_def lif_parameters_def py_div_def default_neuron_def
      exceeds_inv_tau_ref_def lif_rate_inv_of_def np_elementwise_def np_div_def np_lift_def
      sample_rate_inv_def solves_gain_bias_def threshold_current_def)

subsection \<open>Maximum rates and intercepts\<close>

lemma lookup_warnings: "lookup_global ''warnings'' = Inl (NameError ''warnings'')"
  by (simp add: lookup_global_def neurons_globals_def)

text \<open>
  Claim C9 asks for a warning and the computed arrays when an intercept is non-finite.
  The code does otherwise: with \<open>g_leak_som\<close> non-zero and arrays of one length, a zero
  gain makes its intercept non-finite, and the call ends in \<open>NameError\<close>, because the
  module never imports \<open>warnings\<close>.
\<close>

theorem max_rates_intercepts_name_error:
  assumes g: "g_leak_som nrn \<noteq> 0"
    and len: "length gain = length bias"
    and zero: "0 \<in> set gain"
  shows "max_rates_intercepts lif_rate nrn gain bias = Inl (NameError ''warnings'')"
proof -
  define intercepts where
    "intercepts = map2 (\<lambda>b g. np_div (Some (threshold_current nrn - b)) (Some g)) bias gain"
  from zero obtain i where i: "i < length gain" and gi: "gain ! i = 0"
    by (auto simp: in_set_conv_nth)
  have "intercepts ! i = None"
    using i len gi by (simp add: intercepts_def np_div_def)
  moreover have "i < length intercepts"
    using i len by (simp add: intercepts_def)
  ultimately have "None \<in> set intercepts"
    by (metis nth_mem)
  then have nf: "\<not> list_all isfinite intercepts"
    by (auto simp: list_all_iff isfinite_def)
  show ?thesis
    using g len nf
    by (simp add: max_rates_intercepts_def np_elementwise_same_length lif_rate_of_def
        lif_parameters_ok lookup_warnings intercepts_def)
qed

theorem max_rates_intercepts_name_error_witness:
  "g_leak_som default_neuron \<noteq> 0 \<and> length [0::real] = length [0::real] \<and>
   (0::real) \<in> set [0] \<and>
   max_rates_intercepts sample_rate default_neuron [0] [0] = Inl (NameError ''warnings'')"
proof -
  have g: "g_leak_som default_neuron \<noteq> 0"
    by (simp add: default_neuron_def)
  have len: "length [0::real] = length [0::real]" and z: "(0::real) \<in> set [0]"
    by simp_all
  show ?thesis
    using g max_rates_intercepts_name_error [OF g len z, of sample_rate] by simp
qed

subsection \<open>Evaluation points\<close>

lemma nrows_Mat [simp]: "nrows (Mat c rs) = length rs"
  by (simp add: nrows_def)

lemma randint_result:
  assumes "randint g low high n = Inr (idx, g')"
  shows "length idx = n \<and> (\<forall>i \<in> set idx. low \<le> i \<and> i < high)"
proof (cases "n = 0")
  case True
  with assms show ?thesis by (simp add: randint_def)
next
  case False
  with assms have lt: "low < high" and idx: "idx = map (\<lambda>k. low + draws g (pos g + k) mod (high - low)) [0..<n]"
    by (auto simp: randint_def split: if_splits)
  have "low + x mod (high - low) < high" for x
  proof -
    have "x mod (high - low) < high - low" using lt by simp
    then show ?thesis by linarith
  qed
  then show ?thesis by (auto simp: idx)
qed

lemma randint_succeeds:
  "n = 0 \<or> low < high \<Longrightarrow> \<exists>idx g'. randint g low high n = Inr (idx, g')"
  by (auto simp: randint_def)

lemma choice_result:
  assumes "choice A n g = Inr (C, g')"
  shows "ncols C = ncols A" and "nrows C = n" and "set (rws C) \<subseteq> set (rws A)"
    and "wf_mat A \<Longrightarrow> wf_mat C"
proof -
  from assms obtain idx where r: "randint g 0 (nrows A) n = Inr (idx, g')"
    and C: "C = Mat (ncols A) (map (\<lambda>i. rws A ! i) idx)"
    by (auto simp: choice_def split: sum.splits)
  note ri = randint_result [OF r]
  show "ncols C = ncols A" by (simp add: C)
  show "nrows C = n" using ri by (simp add: C)
  show sub: "set (rws C) \<subseteq> set (rws A)"
    using ri by (auto simp: C nrows_def)
  show "wf_mat C" if "wf_mat A"
    using that sub by (auto simp: wf_mat_def C)
qed

lemma choice_succeeds:
  "n = 0 \<or> 0 < nrows A \<Longrightarrow> \<exists>C g'. choice A n g = Inr (C, g')"
  using randint_succeeds [of n 0 "nrows A" g] by (auto simp: choice_def)

lemma broadcast_to_exact:
  assumes "wf_mat v" and "nrows v = tr" and "ncols v = tc"
  shows "broadcast_to v tr tc = Inr (rws v)"
proof -
  have row: "map (\<lambda>j. rws v ! (if nrows v = 1 then 0 else i) ! (if ncols v = 1 then 0 else j)) [0..<tc]
        = rws v ! i" if i: "i < tr" for i
  proof -
    have len: "length (rws v ! i) = tc"
      using assms i by (simp add: wf_mat_def nrows_def)
    have i0: "(if nrows v = 1 then 0 else i) = i"
      using i assms(2) by auto
    show ?thesis
      unfolding i0
      by (rule nth_equalityI) (use len assms(3) in auto)
  qed
  have "map (\<lambda>i. map (\<lambda>j. rws v ! (if nrows v = 1 then 0 else i) ! (if ncols v = 1 then 0 else j)) [0..<tc]) [0..<tr]
      = rws v"
    by (rule nth_equalityI) (use assms(2) row in \<open>auto simp: nrows_def\<close>)
  then show ?thesis
    using assms by (simp add: broadcast_to_def)
qed

lemma assign_block_exact:
  assumes "wf_mat v" and "r0 \<le> r1" and "r1 \<le> nrows A" and "c0 \<le> c1" and "c1 \<le> ncols A"
    and "nrows v = r1 - r0" and "ncols v = c1 - c0"
  shows "assign_block A r0 r1 c0 c1 v =
     Inr (Mat (ncols A)
            (map (\<lambda>i. if r0 \<le> i \<and> i < r1
                       then take c0 (rws A ! i) @ rws v ! (i - r0) @ drop c1 (rws A ! i)
                       else rws A ! i)
               [0..<nrows A]))"
proof -
  have "min r0 (nrows A) = r0" "max r0 (min r1 (nrows A)) = r1"
    "min c0 (ncols A) = c0" "max c0 (min c1 (ncols A)) = c1"
    using assms by auto
  then show ?thesis
    using broadcast_to_exact [OF assms(1) assms(6) assms(7)]
    by (simp add: assign_block_def Let_def)
qed

lemma put_cols_shape [simp]:
  "ncols (put_cols c0 c1 B A) = ncols A" "nrows (put_cols c0 c1 B A) = nrows A"
  by (simp_all add: put_cols_def)

lemma wf_mat_row: "wf_mat A \<Longrightarrow> i < nrows A \<Longrightarrow> length (rws A ! i) = ncols A"
  by (simp add: wf_mat_def nrows_def)

lemma put_cols_row:
  "i < nrows A \<Longrightarrow>
     rws (put_cols c0 c1 B A) ! i = take c0 (rws A ! i) @ B ! i @ drop c1 (rws A ! i)"
  by (simp add: put_cols_def)

lemma put_cols_wf:
  assumes "wf_mat A" and "c0 \<le> c1" and "c1 \<le> ncols A"
    and "\<forall>i < nrows A. length (B ! i) = c1 - c0"
  shows "wf_mat (put_cols c0 c1 B A)"
proof -
  have "length (take c0 (rws A ! i) @ B ! i @ drop c1 (rws A ! i)) = ncols A"
    if "i < nrows A" for i
    using that assms wf_mat_row [OF assms(1) that] by simp
  then show ?thesis
    by (auto simp: wf_mat_def put_cols_def)
qed

lemma take_drop_prefix:
  assumes "b \<le> c0" and "c0 \<le> length r"
  shows "take (b - a) (drop a (take c0 r @ x)) = take (b - a) (drop a r)"
proof -
  have "take (b - a) (drop a (take c0 r @ x)) = take (b - a) (drop a (take c0 r))"
    using assms by simp
  also have "\<dots> = take (b - a) (take (c0 - a) (drop a r))"
    by (simp only: drop_take)
  also have "\<dots> = take (b - a) (drop a r)"
    using assms(1) by (simp add: min_def)
  finally show ?thesis .
qed

lemma np_cols_nth:
  "i < nrows A \<Longrightarrow> np_cols a b A ! i = take (b - a) (drop a (rws A ! i))"
  by (simp add: np_cols_def nrows_def)

lemma length_np_cols [simp]: "length (np_cols a b A) = nrows A"
  by (simp add: np_cols_def nrows_def)

lemma np_cols_put_cols_before:
  assumes "wf_mat A" and "b \<le> c0" and "c0 \<le> ncols A"
  shows "np_cols a b (put_cols c0 c1 B A) = np_cols a b A"
proof (rule nth_equalityI)
  show "length (np_cols a b (put_cols c0 c1 B A)) = length (np_cols a b A)"
    by simp
next
  fix i assume "i < length (np_cols a b (put_cols c0 c1 B A))"
  then have i: "i < nrows A" by simp
  have "np_cols a b (put_cols c0 c1 B A) ! i =
      take (b - a) (drop a (take c0 (rws A ! i) @ (B ! i @ drop c1 (rws A ! i))))"
    using i by (simp only: np_cols_nth put_cols_shape put_cols_row)
  also have "\<dots> = take (b - a) (drop a (rws A ! i))"
    using assms(2,3) wf_mat_row [OF assms(1) i] by (intro take_drop_prefix) simp_all
  finally show "np_cols a b (put_cols c0 c1 B A) ! i = np_cols a b A ! i"
    using i by (simp only: np_cols_nth)
qed

lemma np_cols_put_cols_same:
  assumes "wf_mat A" and "c0 \<le> ncols A" and "length B = nrows A"
    and "\<forall>i < nrows A. length (B ! i) = c1 - c0"
  shows "np_cols c0 c1 (put_cols c0 c1 B A) = B"
proof (rule nth_equalityI)
  show "length (np_cols c0 c1 (put_cols c0 c1 B A)) = length B"
    using assms(3) by simp
next
  fix i assume "i < length (np_cols c0 c1 (put_cols c0 c1 B A))"
  then have i: "i < nrows A" by simp
  have l: "length (take c0 (rws A ! i)) = c0"
    using assms(2) wf_mat_row [OF assms(1) i] by simp
  have lb: "length (B ! i) = c1 - c0"
    using assms(4) i by simp
  have "np_cols c0 c1 (put_cols c0 c1 B A) ! i =
      take (c1 - c0) (drop c0 (take c0 (rws A ! i) @ (B ! i @ drop c1 (rws A ! i))))"
    using i by (simp only: np_cols_nth put_cols_shape put_cols_row)
  also have "\<dots> = take (c1 - c0) (B ! i @ drop c1 (rws A ! i))"
    using l by (simp only: drop_append) simp
  also have "\<dots> = B ! i"
    using lb by simp
  finally show "np_cols c0 c1 (put_cols c0 c1 B A) ! i = B ! i" .
qed

lemma np_cols_sub:
  assumes "np_cols 0 b M = np_cols 0 b N" and "c \<le> b"
  shows "np_cols a c M = np_cols a c N"
proof -
  have eq: "take (c - a) (drop a r) = take (c - a) (drop a (take b r))" for r :: "'a list"
  proof -
    have "take (c - a) (drop a (take b r)) = take (c - a) (take (b - a) (drop a r))"
      by (simp only: drop_take)
    also have "\<dots> = take (c - a) (drop a r)"
      using assms(2) by (simp add: min_def)
    finally show ?thesis by simp
  qed
  have m: "np_cols a c X = map (\<lambda>r. take (c - a) (drop a r)) (np_cols 0 b X)" for X :: "'a mat"
  proof -
    have "map (\<lambda>r. take (c - a) (drop a r)) (np_cols 0 b X)
        = map (\<lambda>r. take (c - a) (drop a (take b r))) (rws X)"
      by (simp add: np_cols_def comp_def)
    also have "\<dots> = map (\<lambda>r. take (c - a) (drop a r)) (rws X)"
      by (simp only: eq [symmetric])
    finally show ?thesis by (simp add: np_cols_def)
  qed
  show ?thesis
    by (simp only: m [of M] m [of N] assms(1))
qed

lemma mat_eqI:
  assumes "ncols A = ncols B" and "nrows A = nrows B"
    and "\<And>i. i < nrows A \<Longrightarrow> rws A ! i = rws B ! i"
  shows "A = B"
proof -
  have "rws A = rws B"
    using assms(2,3) by (intro nth_equalityI) (simp_all add: nrows_def)
  then show ?thesis
    using assms(1) by (simp add: mat.expand)
qed

lemma assign_block_exact_rows:
  assumes "wf_mat v" and "r0 \<le> r1" and "r1 \<le> nrows A" and "c0 \<le> c1" and "c1 \<le> ncols A"
    and "nrows v = r1 - r0" and "ncols v = c1 - c0"
  obtains A' where "assign_block A r0 r1 c0 c1 v = Inr A'"
    and "ncols A' = ncols A" and "nrows A' = nrows A"
    and "\<And>i. i < nrows A \<Longrightarrow> rws A' ! i =
           (if r0 \<le> i \<and> i < r1
            then take c0 (rws A ! i) @ rws v ! (i - r0) @ drop c1 (rws A ! i)
            else rws A ! i)"
proof -
  define A' where "A' = Mat (ncols A)
            (map (\<lambda>i. if r0 \<le> i \<and> i < r1
                       then take c0 (rws A ! i) @ rws v ! (i - r0) @ drop c1 (rws A ! i)
                       else rws A ! i)
               [0..<nrows A])"
  have "assign_block A r0 r1 c0 c1 v = Inr A'"
    unfolding A'_def by (rule assign_block_exact [OF assms])
  moreover have "ncols A' = ncols A" "nrows A' = nrows A"
    by (simp_all add: A'_def)
  moreover have "rws A' ! i =
           (if r0 \<le> i \<and> i < r1
            then take c0 (rws A ! i) @ rws v ! (i - r0) @ drop c1 (rws A ! i)
            else rws A ! i)" if "i < nrows A" for i
    using that by (simp add: A'_def)
  ultimately show ?thesis by (rule that)
qed

text \<open>Both assignments of one pass of the loop, when the shapes fit.\<close>

lemma stack_loop_step:
  assumes wfA: "wf_mat pnts" and wfp: "wf_mat p" and le: "nrows p \<le> nrows pnts"
    and cols: "d + ncols p \<le> ncols pnts"
  shows "stack_loop pnts d (p # ps) (nrows pnts) (nrows pnts) g =
     (case choice p (nrows pnts - nrows p) g of
        Inl e \<Rightarrow> Inl e
      | Inr (c, g1) \<Rightarrow>
          stack_loop (put_cols d (d + ncols p) (rws p @ rws c) pnts) (d + ncols p) ps
            (nrows pnts) (nrows pnts) g1)"
proof -
  obtain A1 where a1: "assign_block pnts 0 (nrows p) d (d + ncols p) p = Inr A1"
    and s1: "ncols A1 = ncols pnts" "nrows A1 = nrows pnts"
    and r1: "\<And>i. i < nrows pnts \<Longrightarrow> rws A1 ! i =
           (if 0 \<le> i \<and> i < nrows p
            then take d (rws pnts ! i) @ rws p ! (i - 0) @ drop (d + ncols p) (rws pnts ! i)
            else rws pnts ! i)"
    using assign_block_exact_rows [of p 0 "nrows p" pnts d "d + ncols p"] wfp le cols
    by auto
  show ?thesis
  proof (cases "choice p (nrows pnts - nrows p) g")
    case (Inl e)
    then show ?thesis using a1 by (simp add: Let_def)
  next
    case (Inr r)
    obtain c g1 where r: "r = (c, g1)" by (cases r)
    note ch = choice_result [OF Inr [unfolded r]]
    have wfc: "wf_mat c" using ch(4) wfp .
    obtain A2 where a2: "assign_block A1 (nrows p) (nrows A1) d (d + ncols p) c = Inr A2"
      and s2: "ncols A2 = ncols A1" "nrows A2 = nrows A1"
      and r2: "\<And>i. i < nrows A1 \<Longrightarrow> rws A2 ! i =
           (if nrows p \<le> i \<and> i < nrows A1
            then take d (rws A1 ! i) @ rws c ! (i - nrows p) @ drop (d + ncols p) (rws A1 ! i)
            else rws A1 ! i)"
      using assign_block_exact_rows [of c "nrows p" "nrows A1" A1 d "d + ncols p"]
        wfc le cols ch(1,2) s1
      by auto
    have "A2 = put_cols d (d + ncols p) (rws p @ rws c) pnts"
    proof (rule mat_eqI)
      show "ncols A2 = ncols (put_cols d (d + ncols p) (rws p @ rws c) pnts)"
        by (simp add: s1 s2)
      show "nrows A2 = nrows (put_cols d (d + ncols p) (rws p @ rws c) pnts)"
        by (simp add: s1 s2)
      fix i assume "i < nrows A2"
      then have i: "i < nrows pnts" by (simp add: s1 s2)
      show "rws A2 ! i = rws (put_cols d (d + ncols p) (rws p @ rws c) pnts) ! i"
      proof (cases "i < nrows p")
        case True
        have "rws A2 ! i = rws A1 ! i"
          using r2 [of i] i True by (simp add: s1)
        also have "\<dots> = take d (rws pnts ! i) @ rws p ! i @ drop (d + ncols p) (rws pnts ! i)"
          using r1 [of i] i True by simp
        also have "\<dots> = rws (put_cols d (d + ncols p) (rws p @ rws c) pnts) ! i"
          using i True by (simp add: put_cols_row nth_append) (simp add: nrows_def)
        finally show ?thesis .
      next
        case False
        have "rws A2 ! i =
            take d (rws A1 ! i) @ rws c ! (i - nrows p) @ drop (d + ncols p) (rws A1 ! i)"
          using r2 [of i] i False by (simp add: s1)
        also have "rws A1 ! i = rws pnts ! i"
          using r1 [of i] i False by simp
        finally have "rws A2 ! i =
            take d (rws pnts ! i) @ rws c ! (i - nrows p) @ drop (d + ncols p) (rws pnts ! i)" .
        also have "\<dots> = rws (put_cols d (d + ncols p) (rws p @ rws c) pnts) ! i"
          using i False by (simp add: put_cols_row nth_append) (simp add: nrows_def)
        finally show ?thesis .
      qed
    qed
    then show ?thesis
      using Inr r a1 a2 by (simp add: Let_def s1)
  qed
qed

lemma block_rows_length:
  assumes "wf_mat p" and "wf_mat c" and "ncols c = ncols p" and "i < length (rws p @ rws c)"
  shows "length ((rws p @ rws c) ! i) = ncols p"
proof -
  have "(rws p @ rws c) ! i \<in> set (rws p) \<union> set (rws c)"
    using assms(4) by (metis nth_mem set_append)
  then show ?thesis
    using assms(1-3) by (auto simp: wf_mat_def)
qed

lemma stack_loop_inv:
  assumes "wf_mat pnts"
    and "\<forall>p \<in> set ps. wf_mat p \<and> nrows p \<le> nrows pnts"
    and "d + sum_list (map ncols ps) \<le> ncols pnts"
    and "stack_loop pnts d ps (nrows pnts) (nrows pnts) g = Inr (M, g')"
  shows "wf_mat M \<and> nrows M = nrows pnts \<and> ncols M = ncols pnts \<and>
         np_cols 0 d M = np_cols 0 d pnts \<and>
         (\<forall>i < length ps.
            take (nrows (ps ! i))
              (np_cols (d + sum_list (map ncols (take i ps)))
                 (d + sum_list (map ncols (take i ps)) + ncols (ps ! i)) M) = rws (ps ! i) \<and>
            set (drop (nrows (ps ! i))
              (np_cols (d + sum_list (map ncols (take i ps)))
                 (d + sum_list (map ncols (take i ps)) + ncols (ps ! i)) M)) \<subseteq> set (rws (ps ! i)))"
  using assms
proof (induction ps arbitrary: pnts d g)
  case Nil
  then show ?case by simp
next
  case (Cons p ps)
  define R where "R = nrows pnts"
  define d' where "d' = d + ncols p"
  have wfp: "wf_mat p" and le: "nrows p \<le> nrows pnts"
    using Cons.prems(2) by simp_all
  have cols: "d + ncols p \<le> ncols pnts"
    using Cons.prems(3) by simp
  note step = stack_loop_step [OF Cons.prems(1) wfp le cols, of ps g]
  from step Cons.prems(4) obtain c g1 where
    ch: "choice p (nrows pnts - nrows p) g = Inr (c, g1)"
    and rest: "stack_loop (put_cols d (d + ncols p) (rws p @ rws c) pnts) (d + ncols p) ps
            (nrows pnts) (nrows pnts) g1 = Inr (M, g')"
    by (auto split: sum.splits)
  note cr = choice_result [OF ch]
  have wfc: "wf_mat c" using cr(4) wfp .
  define B where "B = rws p @ rws c"
  define A' where "A' = put_cols d d' B pnts"
  have lenB: "length B = nrows pnts"
    using cr(2) le by (simp add: B_def nrows_def)
  have rowB: "\<forall>i < nrows pnts. length (B ! i) = d' - d"
    using block_rows_length [OF wfp wfc cr(1)] lenB by (simp add: B_def d'_def)
  have wfA': "wf_mat A'"
    unfolding A'_def using Cons.prems(1) cols rowB by (intro put_cols_wf) (simp_all add: d'_def)
  have shA': "nrows A' = nrows pnts" "ncols A' = ncols pnts"
    by (simp_all add: A'_def)
  have rest': "stack_loop A' d' ps (nrows A') (nrows A') g1 = Inr (M, g')"
    using rest by (simp add: A'_def B_def d'_def)
  have p2: "\<forall>p \<in> set ps. wf_mat p \<and> nrows p \<le> nrows A'"
    using Cons.prems(2) by (simp add: shA')
  have p3: "d' + sum_list (map ncols ps) \<le> ncols A'"
    using Cons.prems(3) by (simp add: shA' d'_def)
  note IH = Cons.IH [OF wfA' p2 p3 rest']
  have pre': "np_cols 0 d' M = np_cols 0 d' A'"
    using IH by simp
  have before: "np_cols 0 d M = np_cols 0 d pnts"
  proof -
    have "np_cols 0 d M = np_cols 0 d A'"
      using pre' by (rule np_cols_sub) (simp add: d'_def)
    also have "\<dots> = np_cols 0 d pnts"
      unfolding A'_def using Cons.prems(1) cols by (intro np_cols_put_cols_before) simp_all
    finally show ?thesis .
  qed
  have block: "np_cols d d' M = B"
  proof -
    have "np_cols d d' M = np_cols d d' A'"
      using pre' by (rule np_cols_sub) simp
    also have "\<dots> = B"
      unfolding A'_def using Cons.prems(1) cols lenB rowB
      by (intro np_cols_put_cols_same) simp_all
    finally show ?thesis .
  qed
  have first: "take (nrows p) (np_cols d d' M) = rws p"
    and fill: "set (drop (nrows p) (np_cols d d' M)) \<subseteq> set (rws p)"
    using cr(3) by (simp_all add: block B_def nrows_def)
  have blocks: "take (nrows ((p # ps) ! i))
              (np_cols (d + sum_list (map ncols (take i (p # ps))))
                 (d + sum_list (map ncols (take i (p # ps))) + ncols ((p # ps) ! i)) M)
              = rws ((p # ps) ! i) \<and>
            set (drop (nrows ((p # ps) ! i))
              (np_cols (d + sum_list (map ncols (take i (p # ps))))
                 (d + sum_list (map ncols (take i (p # ps))) + ncols ((p # ps) ! i)) M))
              \<subseteq> set (rws ((p # ps) ! i))"
    if i: "i < length (p # ps)" for i
  proof (cases i)
    case 0
    then show ?thesis using first fill by (simp add: d'_def)
  next
    case (Suc k)
    then have k: "k < length ps" using i by simp
    have off: "d + sum_list (map ncols (take i (p # ps))) = d' + sum_list (map ncols (take k ps))"
      by (simp add: Suc d'_def)
    have nth: "(p # ps) ! i = ps ! k"
      by (simp add: Suc)
    show ?thesis
      unfolding off nth using IH k by blast
  qed
  show ?case
    using IH before blocks by (simp add: shA')
qed

lemma stack_loop_succeeds:
  assumes "wf_mat pnts"
    and "\<forall>p \<in> set ps. wf_mat p \<and> nrows p \<le> nrows pnts \<and> (0 < nrows p \<or> nrows p = nrows pnts)"
    and "d + sum_list (map ncols ps) \<le> ncols pnts"
  shows "\<exists>M g'. stack_loop pnts d ps (nrows pnts) (nrows pnts) g = Inr (M, g')"
  using assms
proof (induction ps arbitrary: pnts d g)
  case Nil
  then show ?case by simp
next
  case (Cons p ps)
  have wfp: "wf_mat p" and le: "nrows p \<le> nrows pnts"
    and ne: "0 < nrows p \<or> nrows p = nrows pnts"
    using Cons.prems(2) by simp_all
  have cols: "d + ncols p \<le> ncols pnts"
    using Cons.prems(3) by simp
  note step = stack_loop_step [OF Cons.prems(1) wfp le cols, of ps g]
  obtain c g1 where ch: "choice p (nrows pnts - nrows p) g = Inr (c, g1)"
    using choice_succeeds [of "nrows pnts - nrows p" p g] ne by auto
  note cr = choice_result [OF ch]
  have wfc: "wf_mat c" using cr(4) wfp .
  define A' where "A' = put_cols d (d + ncols p) (rws p @ rws c) pnts"
  have lenB: "length (rws p @ rws c) = nrows pnts"
    using cr(2) le by (simp add: nrows_def)
  have rowB: "\<forall>i < nrows pnts. length ((rws p @ rws c) ! i) = (d + ncols p) - d"
    using block_rows_length [OF wfp wfc cr(1)] lenB by simp
  have wfA': "wf_mat A'"
    unfolding A'_def using Cons.prems(1) cols rowB by (intro put_cols_wf) simp_all
  have shA': "nrows A' = nrows pnts" "ncols A' = ncols pnts"
    by (simp_all add: A'_def)
  have p2: "\<forall>p \<in> set ps. wf_mat p \<and> nrows p \<le> nrows A' \<and> (0 < nrows p \<or> nrows p = nrows A')"
    using Cons.prems(2) by (simp add: shA')
  have p3: "d + ncols p + sum_list (map ncols ps) \<le> ncols A'"
    using Cons.prems(3) by (simp add: shA')
  from Cons.IH [OF wfA' p2 p3, of g1]
  show ?case
    using step ch by (simp add: A'_def shA')
qed

lemma py_max_nonempty:
  assumes "ns \<noteq> []"
  shows "py_max ns = Inr (Max (set ns))"
proof (cases ns)
  case Nil
  then show ?thesis using assms by simp
next
  case (Cons a list)
  have "Max (set (a # list)) = fold max list a"
    by (rule Max.set_eq_fold)
  then show ?thesis
    by (simp only: Cons py_max_def list.case)
qed

lemma py_max_empty: "py_max [] = Inl ValueError"
  by (simp add: py_max_def)

lemma np_empty_shape [simp]:
  "nrows (np_empty junk n d) = n" "ncols (np_empty junk n d) = d"
  by (simp_all add: np_empty_def)

lemma np_empty_wf [simp]: "wf_mat (np_empty junk n d)"
  by (auto simp: np_empty_def wf_mat_def)

lemma np_concatenate0_result:
  assumes "ps \<noteq> []" and "\<forall>p \<in> set ps. ncols p = d"
  shows "np_concatenate0 ps = Inr (Mat d (concat (map rws ps)))"
  using assms by (cases ps) (simp_all add: np_concatenate0_def)

lemma fetch_points_ok:
  assumes "\<And>c g. c \<in> set objs \<Longrightarrow>
      \<exists>M g'. get_multi_ensemble_eval_points params junk c g n = Inr (M, g') \<and> pts_ok n c M"
  shows "\<exists>ps g'. fetch_points params junk objs g n = Inr (ps, g') \<and> list_all2 (pts_ok n) objs ps"
  using assms
proof (induction objs arbitrary: g)
  case Nil
  show ?case by simp
next
  case (Cons c objs)
  from Cons.prems [of c g] obtain M g1 where
    m: "get_multi_ensemble_eval_points params junk c g n = Inr (M, g1)" and ok: "pts_ok n c M"
    by auto
  from Cons.IH [of g1] Cons.prems obtain ps g2 where
    f: "fetch_points params junk objs g1 n = Inr (ps, g2)" and oks: "list_all2 (pts_ok n) objs ps"
    by auto
  show ?case
    using m ok f oks by simp
qed

lemma fetch_points_nth:
  assumes "fetch_points params junk objs g n = Inr (ps, g')"
  shows "length ps = length objs \<and>
     (\<forall>i < length objs. \<exists>gi gi'.
        get_multi_ensemble_eval_points params junk (objs ! i) gi n = Inr (ps ! i, gi'))"
  using assms
proof (induction objs arbitrary: g ps)
  case Nil
  then show ?case by simp
next
  case (Cons c objs)
  from Cons.prems obtain M g1 rest where
    m: "get_multi_ensemble_eval_points params junk c g n = Inr (M, g1)"
    and f: "fetch_points params junk objs g1 n = Inr (rest, g')"
    and ps: "ps = M # rest"
    by (auto split: sum.splits)
  note IH = Cons.IH [OF f]
  show ?case
  proof (intro conjI allI impI)
    show "length ps = length (c # objs)" using IH ps by simp
  next
    fix i assume i: "i < length (c # objs)"
    show "\<exists>gi gi'. get_multi_ensemble_eval_points params junk ((c # objs) ! i) gi n
             = Inr (ps ! i, gi')"
    proof (cases i)
      case 0
      then show ?thesis using m ps by auto
    next
      case (Suc k)
      then show ?thesis using IH i ps by simp
    qed
  qed
qed

lemma list_all2_pts_ok_ncols:
  assumes "list_all2 (pts_ok n) objs ps"
  shows "map ncols ps = map dimensions objs"
  using assms by (induction rule: list_all2_induct) (simp_all add: pts_ok_def)

lemma list_all2_pts_ok_set:
  assumes "list_all2 (pts_ok n) objs ps" and "p \<in> set ps"
  shows "wf_mat p \<and> rows_ok n p"
  using assms by (induction rule: list_all2_induct) (auto simp: pts_ok_def)

lemma col_offset_ncols:
  assumes "map ncols ps = map dimensions objs"
  shows "sum_list (map ncols (take i ps)) = col_offset objs i"
proof -
  have "map ncols (take i ps) = map dimensions (take i objs)"
    using assms by (simp add: take_map [symmetric])
  then show ?thesis by (simp add: col_offset_def)
qed

text \<open>With a requested count every child has that many rows; the largest count is the target.\<close>

lemma target_is_max:
  assumes "ps \<noteq> []" and "\<forall>p \<in> set ps. rows_ok n p"
  shows "(case n of None \<Rightarrow> Max (set (map nrows ps)) | Some k \<Rightarrow> k) = Max (set (map nrows ps))"
proof (cases n)
  case None
  then show ?thesis by simp
next
  case (Some k)
  have "set (map nrows ps) = {k}"
    using assms by (cases ps) (auto simp: rows_ok_def Some)
  then show ?thesis by (simp add: Some)
qed

lemma stack_case:
  assumes ne: "objs \<noteq> []" and d: "d = sum_list (map dimensions objs)"
    and fetch: "fetch_points params junk objs g n = Inr (ps, g1)"
    and oks: "list_all2 (pts_ok n) objs ps"
  shows "\<exists>M g'. get_multi_ensemble_eval_points params junk (OpStack objs d) g n = Inr (M, g') \<and>
     wf_mat M \<and> ncols M = d \<and> nrows M = target_count n ps \<and> rows_ok n M \<and>
     (\<forall>i < length objs.
        nrows (ps ! i) \<le> nrows M \<and>
        take (nrows (ps ! i))
          (np_cols (col_offset objs i) (col_offset objs i + dimensions (objs ! i)) M)
          = rws (ps ! i) \<and>
        set (drop (nrows (ps ! i))
          (np_cols (col_offset objs i) (col_offset objs i + dimensions (objs ! i)) M))
          \<subseteq> set (rws (ps ! i)))"
proof -
  define R where "R = Max (set (map nrows ps))"
  have len: "length ps = length objs"
    using oks by (simp add: list_all2_lengthD)
  have pne: "ps \<noteq> []" using ne len by auto
  have nc: "map ncols ps = map dimensions objs"
    by (rule list_all2_pts_ok_ncols [OF oks])
  have okp: "wf_mat p \<and> rows_ok n p" if "p \<in> set ps" for p
    using list_all2_pts_ok_set [OF oks that] .
  have mx: "py_max (map nrows ps) = Inr R"
    unfolding R_def using pne by (intro py_max_nonempty) simp
  have tgt: "(case n of None \<Rightarrow> R | Some k \<Rightarrow> k) = R"
    unfolding R_def using pne okp by (intro target_is_max) auto
  have leR: "nrows p \<le> R" if "p \<in> set ps" for p
    unfolding R_def using that by (intro Max_ge) auto
  have full: "0 < nrows p \<or> nrows p = R" if p: "p \<in> set ps" for p
  proof (cases n)
    case None
    then show ?thesis using okp [OF p] by (simp add: rows_ok_def)
  next
    case (Some k)
    then have "nrows p = k" using okp [OF p] by (simp add: rows_ok_def)
    moreover have "R = k" using tgt Some by simp
    ultimately show ?thesis by simp
  qed
  define pnts where "pnts = np_empty junk R d"
  have shp: "nrows pnts = R" "ncols pnts = d" and wfp: "wf_mat pnts"
    by (simp_all add: pnts_def)
  have c1: "\<forall>p \<in> set ps. wf_mat p \<and> nrows p \<le> nrows pnts \<and> (0 < nrows p \<or> nrows p = nrows pnts)"
    using okp leR full by (simp add: shp)
  have c1': "\<forall>p \<in> set ps. wf_mat p \<and> nrows p \<le> nrows pnts"
    using c1 by blast
  have c2: "0 + sum_list (map ncols ps) \<le> ncols pnts"
    by (simp add: shp nc d)
  from stack_loop_succeeds [OF wfp c1 c2, of g1] obtain M g' where
    sl: "stack_loop pnts 0 ps (nrows pnts) (nrows pnts) g1 = Inr (M, g')"
    by blast
  note inv = stack_loop_inv [OF wfp c1' c2 sl]
  have sl': "stack_loop (np_empty junk R d) 0 ps R R g1 = Inr (M, g')"
    using sl by (simp only: shp) (simp only: pnts_def)
  have res: "get_multi_ensemble_eval_points params junk (OpStack objs d) g n = Inr (M, g')"
    by (simp add: fetch mx tgt sl')
  have rok: "rows_ok n M"
  proof (cases n)
    case None
    obtain p where p: "p \<in> set ps" using pne by (cases ps) auto
    have "0 < nrows p" using okp [OF p] None by (simp add: rows_ok_def)
    then have "0 < R" using leR [OF p] by simp
    then show ?thesis using inv None by (simp add: rows_ok_def shp)
  next
    case (Some k)
    then show ?thesis using inv tgt by (simp add: rows_ok_def shp)
  qed
  have tc: "target_count n ps = R"
    using tgt unfolding target_count_def R_def .
  have invb: "\<forall>i < length ps.
            take (nrows (ps ! i))
              (np_cols (0 + sum_list (map ncols (take i ps)))
                 (0 + sum_list (map ncols (take i ps)) + ncols (ps ! i)) M) = rws (ps ! i) \<and>
            set (drop (nrows (ps ! i))
              (np_cols (0 + sum_list (map ncols (take i ps)))
                 (0 + sum_list (map ncols (take i ps)) + ncols (ps ! i)) M)) \<subseteq> set (rws (ps ! i))"
    and nrM0: "nrows M = nrows pnts"
    using inv by (rule conjunct2 [THEN conjunct2, THEN conjunct2, THEN conjunct2], rule conjunct2 [THEN conjunct1])
  have blocks: "nrows (ps ! i) \<le> nrows M \<and>
        take (nrows (ps ! i))
          (np_cols (col_offset objs i) (col_offset objs i + dimensions (objs ! i)) M)
          = rws (ps ! i) \<and>
        set (drop (nrows (ps ! i))
          (np_cols (col_offset objs i) (col_offset objs i + dimensions (objs ! i)) M))
          \<subseteq> set (rws (ps ! i))" if i: "i < length objs" for i
  proof -
    have ip: "i < length ps" using i len by simp
    have off: "0 + sum_list (map ncols (take i ps)) = col_offset objs i"
      using col_offset_ncols [OF nc] by simp
    have "map ncols ps ! i = map dimensions objs ! i"
      by (simp only: nc)
    then have dim: "ncols (ps ! i) = dimensions (objs ! i)"
      using ip i by simp
    have mem: "ps ! i \<in> set ps"
      using ip by simp
    have le: "nrows (ps ! i) \<le> nrows M"
      using leR [OF mem] by (simp add: nrM0 shp)
    note ib = invb [rule_format, OF ip]
    show ?thesis
      using le ib [unfolded off dim] by blast
  qed
  have wfM: "wf_mat M" and ncM: "ncols M = d" and nrM: "nrows M = target_count n ps"
    using inv tc by (simp_all add: shp)
  show ?thesis
    using res wfM ncM nrM rok blocks by blast
qed

lemma join_case:
  assumes ne: "objs \<noteq> []" and d: "\<forall>c \<in> set objs. dimensions c = d"
    and fetch: "fetch_points params junk objs g n = Inr (ps, g1)"
    and oks: "list_all2 (pts_ok n) objs ps"
  shows "\<exists>M g'. get_multi_ensemble_eval_points params junk (OpJoin objs d) g n = Inr (M, g') \<and>
     wf_mat M \<and> ncols M = d \<and> nrows M = target_count n ps \<and> rows_ok n M \<and>
     set (rws M) \<subseteq> (\<Union>p \<in> set ps. set (rws p))"
proof -
  define R where "R = Max (set (map nrows ps))"
  have len: "length ps = length objs"
    using oks by (simp add: list_all2_lengthD)
  have pne: "ps \<noteq> []" using ne len by auto
  have nc: "map ncols ps = map dimensions objs"
    by (rule list_all2_pts_ok_ncols [OF oks])
  have ncd: "\<forall>p \<in> set ps. ncols p = d"
  proof
    fix p assume "p \<in> set ps"
    then obtain i where i: "i < length ps" and p: "p = ps ! i"
      by (auto simp: in_set_conv_nth)
    have "map ncols ps ! i = map dimensions objs ! i"
      by (simp only: nc)
    then have "ncols (ps ! i) = dimensions (objs ! i)"
      using i len by simp
    moreover have "objs ! i \<in> set objs"
      using i len by simp
    ultimately show "ncols p = d" using d p by simp
  qed
  have okp: "wf_mat p \<and> rows_ok n p" if "p \<in> set ps" for p
    using list_all2_pts_ok_set [OF oks that] .
  have mx: "py_max (map nrows ps) = Inr R"
    unfolding R_def using pne by (intro py_max_nonempty) simp
  have tgt: "(case n of None \<Rightarrow> R | Some k \<Rightarrow> k) = R"
    unfolding R_def using pne okp by (intro target_is_max) auto
  define A where "A = Mat d (concat (map rws ps))"
  have cat: "np_concatenate0 ps = Inr A"
    unfolding A_def by (rule np_concatenate0_result [OF pne ncd])
  have wfA: "wf_mat A"
    using okp ncd by (auto simp: A_def wf_mat_def)
  obtain p where p: "p \<in> set ps" using pne by (cases ps) auto
  have leR: "nrows q \<le> R" if "q \<in> set ps" for q
    unfolding R_def using that by (intro Max_ge) auto
  have pos: "R = 0 \<or> 0 < nrows A"
  proof (cases "R = 0")
    case True
    then show ?thesis by simp
  next
    case False
    have "\<exists>q \<in> set ps. 0 < nrows q"
    proof (rule ccontr)
      assume "\<not> (\<exists>q \<in> set ps. 0 < nrows q)"
      then have "set (map nrows ps) = {0}" using pne by (cases ps) auto
      then show False using False by (simp add: R_def)
    qed
    then obtain q where q: "q \<in> set ps" "0 < nrows q" by blast
    then have "rws q \<noteq> []" by (auto simp: nrows_def)
    then have "concat (map rws ps) \<noteq> []" using q(1) by auto
    then show ?thesis by (simp add: A_def)
  qed
  from choice_succeeds [OF pos, of g1] obtain M g' where ch: "choice A R g1 = Inr (M, g')"
    by blast
  note cr = choice_result [OF ch]
  have res: "get_multi_ensemble_eval_points params junk (OpJoin objs d) g n = Inr (M, g')"
    using fetch mx tgt cat ch by simp
  have rok: "rows_ok n M"
  proof (cases n)
    case None
    have "0 < nrows p" using okp [OF p] None by (simp add: rows_ok_def)
    then have "0 < R" using leR [OF p] by simp
    then show ?thesis using cr(2) None by (simp add: rows_ok_def)
  next
    case (Some k)
    then show ?thesis using cr(2) tgt by (simp add: rows_ok_def)
  qed
  have tc: "target_count n ps = R"
    using tgt unfolding target_count_def R_def .
  have sub: "set (rws M) \<subseteq> (\<Union>p \<in> set ps. set (rws p))"
    using cr(3) by (auto simp: A_def)
  have wfM: "wf_mat M" using cr(4) [OF wfA] .
  have ncM: "ncols M = d" using cr(1) by (simp add: A_def)
  have nrM: "nrows M = target_count n ps" using cr(2) tc by simp
  show ?thesis
    using res wfM ncM nrM rok sub by blast
qed

lemma eval_points_ok:
  assumes "wf_mens params node"
  shows "\<exists>M g'. get_multi_ensemble_eval_points params junk node g n = Inr (M, g') \<and> pts_ok n node M"
  using assms
proof (induction node arbitrary: g)
  case (OpNone ens d)
  then obtain pnts where p: "params ens = Some pnts" and wf: "wf_mat pnts"
    and nc: "ncols pnts = d" and pos: "0 < nrows pnts"
    by (auto split: option.splits)
  show ?case
  proof (cases n)
    case None
    then show ?thesis using p wf nc pos by (simp add: pts_ok_def rows_ok_def)
  next
    case (Some k)
    from choice_succeeds [of k pnts g] pos obtain C g' where ch: "choice pnts k g = Inr (C, g')"
      by auto
    note cr = choice_result [OF ch]
    show ?thesis
      using p Some ch cr(1,2) cr(4) [OF wf] nc by (simp add: pts_ok_def rows_ok_def)
  qed
next
  case (OpStack objs d)
  have kids: "\<exists>M g'. get_multi_ensemble_eval_points params junk c g n = Inr (M, g') \<and> pts_ok n c M"
    if "c \<in> set objs" for c g
    using OpStack.IH [OF that] OpStack.prems that by simp
  from fetch_points_ok [of objs params junk n g, OF kids] obtain ps g1 where
    f: "fetch_points params junk objs g n = Inr (ps, g1)" and oks: "list_all2 (pts_ok n) objs ps"
    by blast
  have ne: "objs \<noteq> []" and d: "d = sum_list (map dimensions objs)"
    using OpStack.prems by simp_all
  from stack_case [OF ne d f oks] show ?case
    by (auto simp: pts_ok_def)
next
  case (OpJoin objs d)
  have kids: "\<exists>M g'. get_multi_ensemble_eval_points params junk c g n = Inr (M, g') \<and> pts_ok n c M"
    if "c \<in> set objs" for c g
    using OpJoin.IH [OF that] OpJoin.prems that by simp
  from fetch_points_ok [of objs params junk n g, OF kids] obtain ps g1 where
    f: "fetch_points params junk objs g n = Inr (ps, g1)" and oks: "list_all2 (pts_ok n) objs ps"
    by blast
  have ne: "objs \<noteq> []" and d: "\<forall>c \<in> set objs. dimensions c = d"
    using OpJoin.prems by simp_all
  from join_case [OF ne d f oks] show ?case
    by (auto simp: pts_ok_def)
qed

lemma col_offset_0: "col_offset objs 0 = 0"
  by (simp add: col_offset_def)

lemma col_offset_Suc:
  "i < length objs \<Longrightarrow> col_offset objs (Suc i) = col_offset objs i + dimensions (objs ! i)"
  by (simp add: col_offset_def take_Suc_conv_app_nth)

lemma col_offset_all: "col_offset objs (length objs) = sum_list (map dimensions objs)"
  by (simp add: col_offset_def)

lemma children_ok:
  assumes "\<forall>c \<in> set objs. wf_mens params c"
  shows "\<exists>ps g1. fetch_points params junk objs g n = Inr (ps, g1) \<and> list_all2 (pts_ok n) objs ps"
proof -
  have kids: "\<exists>M g'. get_multi_ensemble_eval_points params junk c g n = Inr (M, g') \<and> pts_ok n c M"
    if "c \<in> set objs" for c g
    using eval_points_ok [of params c junk g n] assms that by simp
  show ?thesis
    by (rule fetch_points_ok [of objs params junk n g, OF kids])
qed

text \<open>
  Claim C5.  For a \<open>STACK\<close> node that satisfies the tree invariants, the call returns
  an array \<open>M\<close> of \<open>dimensions\<close> columns whose row count is the target count (the
  requested count, or the largest child count when none is requested).  The column
  offsets are the prefix sums of the children's dimensions: they start at \<open>0\<close>, each
  block ends where the next begins, and the last ends at \<open>dimensions\<close>.  The block of
  child \<open>i\<close> holds that child's own points in its first rows, and every remaining row of
  the block is one of that child's rows.
\<close>

theorem stack_blocks_tile:
  assumes "wf_mens params (OpStack objs d)"
  shows "\<exists>ps g1 M g'.
     fetch_points params junk objs g n = Inr (ps, g1) \<and> length ps = length objs \<and>
     (\<forall>i < length objs. \<exists>gi gi'.
        get_multi_ensemble_eval_points params junk (objs ! i) gi n = Inr (ps ! i, gi')) \<and>
     get_multi_ensemble_eval_points params junk (OpStack objs d) g n = Inr (M, g') \<and>
     wf_mat M \<and> ncols M = d \<and> nrows M = target_count n ps \<and>
     col_offset objs 0 = 0 \<and>
     (\<forall>i < length objs. col_offset objs (Suc i) = col_offset objs i + dimensions (objs ! i)) \<and>
     col_offset objs (length objs) = d \<and>
     (\<forall>i < length objs.
        nrows (ps ! i) \<le> nrows M \<and>
        take (nrows (ps ! i))
          (np_cols (col_offset objs i) (col_offset objs i + dimensions (objs ! i)) M)
          = rws (ps ! i) \<and>
        set (drop (nrows (ps ! i))
          (np_cols (col_offset objs i) (col_offset objs i + dimensions (objs ! i)) M))
          \<subseteq> set (rws (ps ! i)))"
proof -
  have ne: "objs \<noteq> []" and d: "d = sum_list (map dimensions objs)"
    and kids: "\<forall>c \<in> set objs. wf_mens params c"
    using assms by simp_all
  from children_ok [OF kids, of junk g n] obtain ps g1 where
    f: "fetch_points params junk objs g n = Inr (ps, g1)" and oks: "list_all2 (pts_ok n) objs ps"
    by blast
  note nth = fetch_points_nth [OF f]
  from stack_case [OF ne d f oks] obtain M g' where
    res: "get_multi_ensemble_eval_points params junk (OpStack objs d) g n = Inr (M, g')"
    and sh: "wf_mat M" "ncols M = d" "nrows M = target_count n ps"
    and blocks: "\<forall>i < length objs.
        nrows (ps ! i) \<le> nrows M \<and>
        take (nrows (ps ! i))
          (np_cols (col_offset objs i) (col_offset objs i + dimensions (objs ! i)) M)
          = rws (ps ! i) \<and>
        set (drop (nrows (ps ! i))
          (np_cols (col_offset objs i) (col_offset objs i + dimensions (objs ! i)) M))
          \<subseteq> set (rws (ps ! i))"
    by blast
  have offs: "\<forall>i < length objs. col_offset objs (Suc i) = col_offset objs i + dimensions (objs ! i)"
    by (simp add: col_offset_Suc)
  have last: "col_offset objs (length objs) = d"
    by (simp add: col_offset_all d)
  show ?thesis
    using f nth res sh col_offset_0 [of objs] offs last blocks by blast
qed

text \<open>
  Claim C6.  For a \<open>JOIN\<close> node that satisfies the tree invariants, the call returns an
  array whose row count is the requested count, or the largest child count when none is
  requested, and every returned row is a row of the point set of one of the children.
\<close>

theorem join_rows_from_children:
  assumes "wf_mens params (OpJoin objs d)"
  shows "\<exists>ps g1 M g'.
     fetch_points params junk objs g n = Inr (ps, g1) \<and> length ps = length objs \<and>
     (\<forall>i < length objs. \<exists>gi gi'.
        get_multi_ensemble_eval_points params junk (objs ! i) gi n = Inr (ps ! i, gi')) \<and>
     get_multi_ensemble_eval_points params junk (OpJoin objs d) g n = Inr (M, g') \<and>
     ncols M = d \<and> nrows M = target_count n ps \<and>
     (\<forall>r \<in> set (rws M). \<exists>p \<in> set ps. r \<in> set (rws p))"
proof -
  have ne: "objs \<noteq> []" and d: "\<forall>c \<in> set objs. dimensions c = d"
    and kids: "\<forall>c \<in> set objs. wf_mens params c"
    using assms by simp_all
  from children_ok [OF kids, of junk g n] obtain ps g1 where
    f: "fetch_points params junk objs g n = Inr (ps, g1)" and oks: "list_all2 (pts_ok n) objs ps"
    by blast
  note nth = fetch_points_nth [OF f]
  from join_case [OF ne d f oks] obtain M g' where
    res: "get_multi_ensemble_eval_points params junk (OpJoin objs d) g n = Inr (M, g')"
    and sh: "ncols M = d" "nrows M = target_count n ps"
    and sub: "set (rws M) \<subseteq> (\<Union>p \<in> set ps. set (rws p))"
    by blast
  have rows: "\<forall>r \<in> set (rws M). \<exists>p \<in> set ps. r \<in> set (rws p)"
    using sub by blast
  show ?thesis
    using f nth res sh rows by blast
qed

lemma wf_example_stack: "wf_mens ens_points (OpStack [OpNone 0 1, OpNone 1 2] 3)"
  by (simp add: ens_points_def wf_mat_def)

lemma wf_example_join: "wf_mens ens_points (OpJoin [OpNone 0 1, OpNone 2 1] 1)"
  by (simp add: ens_points_def wf_mat_def)

lemma fetch_example_stack:
  "fetch_points ens_points zero_junk [OpNone 0 1, OpNone 1 2] sample_rng None =
     Inr ([Mat 1 [[1], [2], [3]], Mat 2 [[10, 11], [20, 21]]], sample_rng)"
  by (simp add: ens_points_def)

lemma fetch_example_join:
  "fetch_points ens_points zero_junk [OpNone 0 1, OpNone 2 1] sample_rng None =
     Inr ([Mat 1 [[1], [2], [3]], Mat 1 [[7], [8]]], sample_rng)"
  by (simp add: ens_points_def)

theorem stack_blocks_tile_witness:
  "wf_mens ens_points (OpStack [OpNone 0 1, OpNone 1 2] 3) \<and>
   (\<exists>M g'. get_multi_ensemble_eval_points ens_points zero_junk
              (OpStack [OpNone 0 1, OpNone 1 2] 3) sample_rng None = Inr (M, g') \<and>
      ncols M = 3 \<and> nrows M = 3 \<and>
      np_cols 0 1 M = [[1], [2], [3]] \<and>
      take 2 (np_cols 1 3 M) = [[10, 11], [20, 21]] \<and>
      set (drop 2 (np_cols 1 3 M)) \<subseteq> {[10, 11], [20, 21]})"
proof -
  from stack_blocks_tile [OF wf_example_stack, of zero_junk sample_rng None]
  obtain ps g1 M g' where
    f: "fetch_points ens_points zero_junk [OpNone 0 1, OpNone 1 2] sample_rng None = Inr (ps, g1)"
    and res: "get_multi_ensemble_eval_points ens_points zero_junk
              (OpStack [OpNone 0 1, OpNone 1 2] 3) sample_rng None = Inr (M, g')"
    and sh: "ncols M = 3" "nrows M = target_count None ps"
    and blocks: "\<forall>i < length [OpNone 0 1, OpNone 1 2].
        nrows (ps ! i) \<le> nrows M \<and>
        take (nrows (ps ! i))
          (np_cols (col_offset [OpNone 0 1, OpNone 1 2] i)
             (col_offset [OpNone 0 1, OpNone 1 2] i + dimensions ([OpNone 0 1, OpNone 1 2] ! i)) M)
          = rws (ps ! i) \<and>
        set (drop (nrows (ps ! i))
          (np_cols (col_offset [OpNone 0 1, OpNone 1 2] i)
             (col_offset [OpNone 0 1, OpNone 1 2] i + dimensions ([OpNone 0 1, OpNone 1 2] ! i)) M))
          \<subseteq> set (rws (ps ! i))"
    by blast
  have ps: "ps = [Mat 1 [[1], [2], [3]], Mat 2 [[10, 11], [20, 21]]]"
    using f fetch_example_stack by simp
  have n3: "nrows M = 3"
    using sh(2) by (simp add: ps target_count_def)
  have b0: "np_cols 0 1 M = [[1], [2], [3]]"
    using blocks [rule_format, of 0] n3 by (simp add: ps col_offset_def)
  have b1: "take 2 (np_cols 1 3 M) = [[10, 11], [20, 21]]"
    and b2: "set (drop 2 (np_cols 1 3 M)) \<subseteq> {[10, 11], [20, 21]}"
    using blocks [rule_format, of 1] by (simp_all add: ps col_offset_def eval_nat_numeral)
  show ?thesis
    using wf_example_stack res sh(1) n3 b0 b1 b2 by blast
qed

theorem join_rows_from_children_witness:
  "wf_mens ens_points (OpJoin [OpNone 0 1, OpNone 2 1] 1) \<and>
   (\<exists>M g'. get_multi_ensemble_eval_points ens_points zero_junk
              (OpJoin [OpNone 0 1, OpNone 2 1] 1) sample_rng None = Inr (M, g') \<and>
      ncols M = 1 \<and> nrows M = 3 \<and>
      set (rws M) \<subseteq> {[1], [2], [3], [7], [8]})"
proof -
  from join_rows_from_children [OF wf_example_join, of zero_junk sample_rng None]
  obtain ps g1 M g' where
    f: "fetch_points ens_points zero_junk [OpNone 0 1, OpNone 2 1] sample_rng None = Inr (ps, g1)"
    and res: "get_multi_ensemble_eval_points ens_points zero_junk
              (OpJoin [OpNone 0 1, OpNone 2 1] 1) sample_rng None = Inr (M, g')"
    and sh: "ncols M = 1" "nrows M = target_count None ps"
    and rows: "\<forall>r \<in> set (rws M). \<exists>p \<in> set ps. r \<in> set (rws p)"
    by blast
  have ps: "ps = [Mat 1 [[1], [2], [3]], Mat 1 [[7], [8]]]"
    using f fetch_example_join by simp
  have n3: "nrows M = 3"
    using sh(2) by (simp add: ps target_count_def)
  have sub: "set (rws M) \<subseteq> {[1], [2], [3], [7], [8]}"
    using rows by (auto simp: ps)
  show ?thesis
    using wf_example_join res sh(1) n3 sub by blast
qed

subsection \<open>The array store\<close>

lemma alloc_facts:
  assumes "alloc A s = (w, s')"
  shows "w = whole (fresh s) A" and "fresh s' = Suc (fresh s)"
    and "arrays s' = (arrays s)(fresh s \<mapsto> A)"
    and "conn_params s' = conn_params s" and "ens_params s' = ens_params s"
    and "builds s' = builds s" and "solves s' = solves s"
    and "operators s' = operators s" and "generator s' = generator s"
  using assms by (auto simp: alloc_def)

lemma buf_whole [simp]: "buf (whole a A) = a"
  by (simp add: whole_def)



lemma buf_np_T_slice [simp]: "buf (np_T (slice_rows w n0 n1)) = buf w"
  by (simp add: np_T_def slice_rows_def Let_def)

subsection \<open>The steps of the build\<close>

lemma target_currents_state:
  "snd (target_currents x s conn E)
     = s\<lparr> generator := generator (snd (target_currents x s conn E)) \<rparr>"
proof (cases "transform_is_dense conn")
  case False
  then show ?thesis
    by (simp add: target_currents_def)
next
  case True
  obtain t g where "sample_transform x conn (generator s) = (t, g)"
    by (cases "sample_transform x conn (generator s)")
  then show ?thesis
    using True by (simp add: target_currents_def)
qed

lemma target_currents_fields:
  assumes "target_currents x s conn E = (r, s1)"
  shows "arrays s1 = arrays s" "fresh s1 = fresh s" "conn_params s1 = conn_params s"
    "ens_params s1 = ens_params s" "builds s1 = builds s" "solves s1 = solves s"
    "operators s1 = operators s"
proof -
  from target_currents_state [of x s conn E] assms
  have e: "s1 = s\<lparr> generator := generator s1 \<rparr>"
    by simp
  show "arrays s1 = arrays s" by (subst e) simp
  show "fresh s1 = fresh s" by (subst e) simp
  show "conn_params s1 = conn_params s" by (subst e) simp
  show "ens_params s1 = ens_params s" by (subst e) simp
  show "builds s1 = builds s" by (subst e) simp
  show "solves s1 = solves s" by (subst e) simp
  show "operators s1 = operators s" by (subst e) simp
qed

lemma store_weights_facts:
  assumes "store_weights conn WE WI dm nm s = (bc, s')"
  shows "bc = \<lparr> weights_exc = Some (whole (fresh s) WE),
            weights_inh = Some (whole (Suc (Suc (fresh s))) (np_neg WI)),
            pre_idx_dim_map = dm, pre_idx_neurons_map = nm \<rparr>"
    and "arrays s' = (arrays s)(fresh s \<mapsto> WE, Suc (fresh s) \<mapsto> WI,
                            Suc (Suc (fresh s)) \<mapsto> np_neg WI)"
    and "fresh s' = Suc (Suc (Suc (fresh s)))"
    and "conn_params s' = (conn_params s)(c_id conn \<mapsto> bc)"
    and "ens_params s' = ens_params s"
    and "builds s' = builds s" and "solves s' = solves s"
  using assms by (auto simp: store_weights_def alloc_def Let_def)

lemma build_connection_cases:
  obtains
    (gather_fails) e where "gather x s conn = Inl e" "build_connection x s conn = (Inl e, s)"
  | (currents_fail) E A S dm nm e s1 where
      "gather x s conn = Inr (E, A, S, dm, nm)"
      "target_currents x s conn E = (Inl e, s1)"
      "build_connection x s conn = (Inl e, s1)"
  | (solver_fails) E A S dm nm tc s1 e where
      "gather x s conn = Inr (E, A, S, dm, nm)"
      "target_currents x s conn E = (Inr tc, s1)"
      "solve x A tc S (generator s1) = Inl e"
      "build_connection x s conn = (Inl e, s1\<lparr> solves := c_id conn # solves s1 \<rparr>)"
  | (built) E A S dm nm tc s1 WE WI g bc s2 where
      "gather x s conn = Inr (E, A, S, dm, nm)"
      "target_currents x s conn E = (Inr tc, s1)"
      "solve x A tc S (generator s1) = Inr ((WE, WI), g)"
      "store_weights conn WE WI dm nm (s1\<lparr> generator := g, solves := c_id conn # solves s1 \<rparr>)
         = (bc, s2)"
      "build_connection x s conn = (Inr bc, s2)"
proof (cases "gather x s conn")
  case (Inl e)
  then show ?thesis
    by (intro gather_fails [of e]) (simp_all add: build_connection_def)
next
  case (Inr r)
  obtain E A S dm nm where r: "r = (E, A, S, dm, nm)"
    by (cases r) auto
  note g = Inr [unfolded r]
  obtain rt s1 where t: "target_currents x s conn E = (rt, s1)"
    by (cases "target_currents x s conn E")
  show ?thesis
  proof (cases rt)
    case (Inl e)
    then show ?thesis
      using g t by (intro currents_fail [of E A S dm nm e s1]) (simp_all add: build_connection_def)
  next
    case tc: (Inr tc)
    show ?thesis
    proof (cases "solve x A tc S (generator s1)")
      case (Inl e)
      then show ?thesis
        using g t tc
        by (intro solver_fails [of E A S dm nm tc s1 e]) (simp_all add: build_connection_def)
    next
      case (Inr v)
      obtain WE WI g' where v: "v = ((WE, WI), g')"
        by (cases v) auto
      obtain bc s2 where
        st: "store_weights conn WE WI dm nm (s1\<lparr> generator := g', solves := c_id conn # solves s1 \<rparr>)
               = (bc, s2)"
        by (cases "store_weights conn WE WI dm nm
                     (s1\<lparr> generator := g', solves := c_id conn # solves s1 \<rparr>)")
      show ?thesis
        using g t tc Inr v st
        by (intro built [of E A S dm nm tc s1 WE WI g' bc s2]) (simp_all add: build_connection_def)
    qed
  qed
qed

lemma build_connection_fail:
  assumes "build_connection x s conn = (Inl e, s')"
  shows "conn_params s' = conn_params s" "arrays s' = arrays s" "fresh s' = fresh s"
    "builds s' = builds s" "ens_params s' = ens_params s"
    "solves s' = solves s \<or> solves s' = c_id conn # solves s"
proof -
  have "conn_params s' = conn_params s \<and> arrays s' = arrays s \<and> fresh s' = fresh s \<and>
    builds s' = builds s \<and> ens_params s' = ens_params s \<and>
    (solves s' = solves s \<or> solves s' = c_id conn # solves s)"
  proof (cases rule: build_connection_cases [of x s conn])
    case (gather_fails e)
    then show ?thesis using assms by simp
  next
    case (currents_fail E A S dm nm e s1)
    then show ?thesis using assms target_currents_fields [OF currents_fail(2)] by simp
  next
    case (solver_fails E A S dm nm tc s1 e)
    then show ?thesis using assms target_currents_fields [OF solver_fails(2)] by auto
  next
    case (built E A S dm nm tc s1 WE WI g bc s2)
    then show ?thesis using assms by simp
  qed
  then show "conn_params s' = conn_params s" "arrays s' = arrays s" "fresh s' = fresh s"
    "builds s' = builds s" "ens_params s' = ens_params s"
    "solves s' = solves s \<or> solves s' = c_id conn # solves s"
    by simp_all
qed

lemma build_connection_ok:
  assumes "build_connection x s conn = (Inr bc, s')"
  shows "\<exists>E A S dm nm tc s1 WE WI g.
     gather x s conn = Inr (E, A, S, dm, nm) \<and>
     target_currents x s conn E = (Inr tc, s1) \<and>
     solve x A tc S (generator s1) = Inr ((WE, WI), g) \<and>
     bc = \<lparr> weights_exc = Some (whole (fresh s) WE),
            weights_inh = Some (whole (Suc (Suc (fresh s))) (np_neg WI)),
            pre_idx_dim_map = dm, pre_idx_neurons_map = nm \<rparr> \<and>
     arrays s' = (arrays s)(fresh s \<mapsto> WE, Suc (fresh s) \<mapsto> WI,
                            Suc (Suc (fresh s)) \<mapsto> np_neg WI) \<and>
     fresh s' = Suc (Suc (Suc (fresh s))) \<and>
     conn_params s' = (conn_params s)(c_id conn \<mapsto> bc) \<and>
     ens_params s' = ens_params s \<and>
     builds s' = builds s \<and> solves s' = c_id conn # solves s"
proof (cases rule: build_connection_cases [of x s conn])
  case (gather_fails e)
  then show ?thesis using assms by simp
next
  case (currents_fail E A S dm nm e s1)
  then show ?thesis using assms by simp
next
  case (solver_fails E A S dm nm tc s1 e)
  then show ?thesis using assms by simp
next
  case (built E A S dm nm tc s1 WE WI g bc' s2)
  have eq: "bc' = bc" "s2 = s'"
    using built(5) assms by simp_all
  note f = target_currents_fields [OF built(2)]
  note w = store_weights_facts [OF built(4) [unfolded eq]]
  have "bc = \<lparr> weights_exc = Some (whole (fresh s) WE),
            weights_inh = Some (whole (Suc (Suc (fresh s))) (np_neg WI)),
            pre_idx_dim_map = dm, pre_idx_neurons_map = nm \<rparr>"
    using w(1) by (simp add: f)
  moreover have "arrays s' = (arrays s)(fresh s \<mapsto> WE, Suc (fresh s) \<mapsto> WI,
                            Suc (Suc (fresh s)) \<mapsto> np_neg WI)"
    using w(2) by (simp add: f)
  moreover have "fresh s' = Suc (Suc (Suc (fresh s)))"
    using w(3) by (simp add: f)
  moreover have "conn_params s' = (conn_params s)(c_id conn \<mapsto> bc)"
    using w(4) by (simp add: f)
  moreover have "ens_params s' = ens_params s" "builds s' = builds s"
    "solves s' = c_id conn # solves s"
    using w(5,6,7) by (simp_all add: f)
  ultimately show ?thesis
    using built(1,2,3) by blast
qed

lemma np_copy_result:
  assumes "np_copy v s = Inr (W, s')"
  shows "\<exists>A. read_array s v = Some A \<and> W = whole (fresh s) A \<and>
             s' = s\<lparr> arrays := (arrays s)(fresh s \<mapsto> A), fresh := Suc (fresh s) \<rparr>"
  using assms by (auto simp: np_copy_def alloc_def split: option.splits)

lemma lookup_weights_error:
  assumes "lookup_weights s sw bc = (Inl e, s')"
  shows "s' = s"
  using assms
  by (auto simp: lookup_weights_def Let_def split: if_splits prod.splits option.splits sum.splits)

lemma lookup_weights_result:
  assumes "lookup_weights s sw bc = (Inr W, s')"
  shows "\<exists>w n0 n1 A.
     sw_pre_idx sw < length (pre (sw_connection sw)) \<and>
     sw_pre_idx sw < length (pre_idx_neurons_map bc) \<and>
     pre_idx_neurons_map bc ! sw_pre_idx sw = (n0, n1) \<and>
     weights bc (sw_synapse_type sw) = Some w \<and>
     read_array s (np_T (slice_rows w n0 n1)) = Some A \<and>
     W = whole (fresh s) A \<and>
     s' = s\<lparr> arrays := (arrays s)(fresh s \<mapsto> A), fresh := Suc (fresh s) \<rparr>"
proof -
  from assms have i1: "sw_pre_idx sw < length (pre (sw_connection sw))"
    and i2: "sw_pre_idx sw < length (pre_idx_neurons_map bc)"
    by (auto simp: lookup_weights_def split: if_splits)
  obtain n0 n1 where n: "pre_idx_neurons_map bc ! sw_pre_idx sw = (n0, n1)"
    by (cases "pre_idx_neurons_map bc ! sw_pre_idx sw")
  from assms i1 i2 n obtain w where w: "weights bc (sw_synapse_type sw) = Some w"
    by (auto simp: lookup_weights_def split: option.splits)
  from assms i1 i2 n w have "np_copy (np_T (slice_rows w n0 n1)) s = Inr (W, s')"
    by (auto simp: lookup_weights_def split: sum.splits)
  from np_copy_result [OF this] show ?thesis
    using i1 i2 n w by blast
qed

lemma enter_build_fields:
  "conn_params (enter_build s conn) = (conn_params s)(c_id conn \<mapsto> BuiltConnection)"
  "builds (enter_build s conn) = c_id conn # builds s"
  "solves (enter_build s conn) = solves s"
  "arrays (enter_build s conn) = arrays s"
  "fresh (enter_build s conn) = fresh s"
  "ens_params (enter_build s conn) = ens_params s"
  by (simp_all add: enter_build_def remove_bias_current_def Let_def split: option.splits)

subsection \<open>The cache and the consistency of the store\<close>

lemma build_solver_cases:
  obtains
    (hit) bc where "conn_params s (c_id (sw_connection sw)) = Some bc"
      "build_solver x s sw = lookup_weights s sw bc"
  | (build_fails) e s3 where "conn_params s (c_id (sw_connection sw)) = None"
      "build_connection x (enter_build s (sw_connection sw)) (sw_connection sw) = (Inl e, s3)"
      "build_solver x s sw = (Inl e, s3)"
  | (built) bc s3 where "conn_params s (c_id (sw_connection sw)) = None"
      "build_connection x (enter_build s (sw_connection sw)) (sw_connection sw) = (Inr bc, s3)"
      "build_solver x s sw = lookup_weights s3 sw bc"
proof (cases "conn_params s (c_id (sw_connection sw))")
  case (Some bc)
  then show ?thesis
    by (intro hit [of bc]) (simp_all add: build_solver_def)
next
  case None
  obtain r s3 where b:
    "build_connection x (enter_build s (sw_connection sw)) (sw_connection sw) = (r, s3)"
    by (cases "build_connection x (enter_build s (sw_connection sw)) (sw_connection sw)")
  show ?thesis
  proof (cases r)
    case (Inl e)
    then show ?thesis
      using None b by (intro build_fails [of e s3]) (simp_all add: build_solver_def)
  next
    case (Inr bc)
    then show ?thesis
      using None b by (intro built [of bc s3]) (simp_all add: build_solver_def)
  qed
qed




lemma is_whole_whole [simp]: "is_whole (whole a B) B"
  by (simp add: is_whole_def whole_def)










lemma store_inv_empty: "store_inv (empty_model g)"
  by (simp add: store_inv_def empty_model_def cached_arrays_def)




lemma conn_params_mutate [simp]: "conn_params (mutate W f s) = conn_params s"
  by (simp add: mutate_def split: option.splits)


subsection \<open>The sample models\<close>

lemma gather_two_ens:
  "gather sample_ext (enter_build two_ens_model sample_conn) sample_conn =
     Inr (Mat 2 [[1, 3], [2, 4]], Mat 3 [[1, 1, 3], [2, 2, 4]],
          Mat 3 [[True, True, False], [False, False, True]], [(0, 1), (1, 2)], [(0, 2), (2, 3)])"
  by code_simp

lemma gather_mismatched:
  "gather sample_ext (enter_build mismatched_model sample_conn) sample_conn = Inl ValueError"
  by code_simp

lemma first_request_result:
  "fst (build_solver sample_ext two_ens_model (sample_request 1 Inhibitory))
     = Inr \<lparr> buf = 3, row_lo = 0, row_hi = 2, transposed = False \<rparr>"
  by code_simp

lemma mismatched_result:
  "fst (build_solver sample_ext mismatched_model (sample_request 0 Excitatory)) = Inl ValueError"
  by code_simp

subsection \<open>What a request leaves unchanged\<close>



subsection \<open>Builds and solver calls are logged once\<close>

lemma lookup_weights_fields:
  assumes "lookup_weights s sw bc = (r, s')"
  shows "conn_params s' = conn_params s" "builds s' = builds s" "solves s' = solves s"
proof -
  have "conn_params s' = conn_params s \<and> builds s' = builds s \<and> solves s' = solves s"
  proof (cases r)
    case (Inl e)
    then show ?thesis using lookup_weights_error assms by blast
  next
    case (Inr W)
    from lookup_weights_result [OF assms [unfolded Inr]] obtain A where
      "s' = s\<lparr> arrays := (arrays s)(fresh s \<mapsto> A), fresh := Suc (fresh s) \<rparr>"
      by (elim exE conjE)
    then show ?thesis by simp
  qed
  then show "conn_params s' = conn_params s" "builds s' = builds s" "solves s' = solves s"
    by simp_all
qed

lemma build_connection_ok_fields:
  assumes "build_connection x s conn = (Inr bc, s')"
  shows "conn_params s' = (conn_params s)(c_id conn \<mapsto> bc)"
    and "fresh s' = Suc (Suc (Suc (fresh s)))"
    and "ens_params s' = ens_params s"
    and "builds s' = builds s"
    and "solves s' = c_id conn # solves s"
proof -
  from build_connection_ok [OF assms] obtain E A S dm nm tc s1 WE WI g where
    "conn_params s' = (conn_params s)(c_id conn \<mapsto> bc)"
    "fresh s' = Suc (Suc (Suc (fresh s)))"
    "ens_params s' = ens_params s"
    "builds s' = builds s"
    "solves s' = c_id conn # solves s"
    by (elim exE conjE)
  then show "conn_params s' = (conn_params s)(c_id conn \<mapsto> bc)"
    and "fresh s' = Suc (Suc (Suc (fresh s)))"
    and "ens_params s' = ens_params s"
    and "builds s' = builds s"
    and "solves s' = c_id conn # solves s"
    by simp_all
qed





lemma once_inv_empty: "once_inv (empty_model g)"
  by (simp add: once_inv_def empty_model_def)







lemma second_request_content:
  "read_array (snd (build_solver sample_ext after_first_request (sample_request 1 Excitatory)))
     \<lparr> buf = 4, row_lo = 0, row_hi = 2, transposed = False \<rparr> = Some (Mat 1 [[5], [6]])"
  by code_simp

lemma after_first_logs:
  "builds after_first_request = [7] \<and> solves after_first_request = [7]"
  by code_simp

subsection \<open>Differing evaluation point counts\<close>

lemma counts_differ_wf:
  assumes "wf_mat A"
  shows "\<not> counts_differ A"
proof -
  have "set (map length (rws A)) \<subseteq> {ncols A}"
    using assms by (auto simp: wf_mat_def)
  then have "card (set (map length (rws A))) \<le> card {ncols A}"
    by (intro card_mono) simp_all
  then have "length (remdups (map length (rws A))) \<le> 1"
    by (simp add: length_remdups_card_conv)
  then show ?thesis
    by (simp add: counts_differ_def)
qed

lemma np_concatenate1_mismatch:
  assumes "A \<in> set As" and "B \<in> set As" and "nrows A \<noteq> nrows B"
  shows "np_concatenate1 As = Inl ValueError"
proof (cases As)
  case Nil
  then show ?thesis using assms by simp
next
  case (Cons A0 rest)
  have "\<not> (\<forall>C \<in> set As. nrows C = nrows A0)"
    using assms by metis
  then show ?thesis
    by (simp add: np_concatenate1_def Cons)
qed

text \<open>The loop when \<open>conn.eval_points\<close> is \<open>None\<close> and every source ensemble has been built.\<close>

lemma pre_loop_built:
  assumes "c_eval_points conn = None"
    and "\<forall>p \<in> set ps. ens_params s (pre_ensemble p) \<noteq> None"
  shows "\<exists>v'. pre_loop x s conn ps v = Inr v' \<and>
     l_eval_points_list v' = l_eval_points_list v @ map (built_points s) ps \<and>
     l_eval_points v' = (if ps = [] then l_eval_points v else Some (built_points s (last ps)))"
  using assms(2)
proof (induction ps arbitrary: v)
  case Nil
  then show ?case by simp
next
  case (Cons p ps)
  from Cons.prems obtain b where b: "ens_params s (pre_ensemble p) = Some b"
    by auto
  define v1 where "v1 =
     \<lparr> l_d1 = l_d1 v + size_out p, l_n1 = l_n1 v + neurons_size_out p,
       l_eval_points_list = l_eval_points_list v @ [be_eval_points b],
       l_activities_list = l_activities_list v @ [get_activities x b p (be_eval_points b)],
       l_dim_map = l_dim_map v @ [(l_d1 v, l_d1 v + size_out p)],
       l_neurons_map = l_neurons_map v @ [(l_n1 v, l_n1 v + neurons_size_out p)],
       l_synapse_exc = l_synapse_exc v @ [be_synapse_exc b],
       l_synapse_inh = l_synapse_inh v @ [be_synapse_inh b],
       l_eval_points = Some (be_eval_points b) \<rparr>"
  have step: "pre_loop x s conn (p # ps) v = pre_loop x s conn ps v1"
    by (simp add: b assms(1) Let_def v1_def)
  have bp: "built_points s p = be_eval_points b"
    by (simp add: built_points_def b)
  from Cons.IH [of v1] Cons.prems obtain v' where
    r: "pre_loop x s conn ps v1 = Inr v'"
    and el: "l_eval_points_list v' = l_eval_points_list v1 @ map (built_points s) ps"
    and ep: "l_eval_points v' = (if ps = [] then l_eval_points v1 else Some (built_points s (last ps)))"
    by auto
  have "l_eval_points_list v' = l_eval_points_list v @ map (built_points s) (p # ps)"
    by (simp add: el v1_def bp)
  moreover have "l_eval_points v' = Some (built_points s (last (p # ps)))"
    by (simp add: ep v1_def bp)
  ultimately show ?case
    using step r by simp
qed

lemma gather_mismatch:
  assumes ev: "c_eval_points conn = None"
    and built: "\<forall>p \<in> set (pre conn). \<exists>b. ens_params s (pre_ensemble p) = Some b \<and>
                  wf_mat (be_eval_points b)"
    and p: "p \<in> set (pre conn)" and q: "q \<in> set (pre conn)"
    and ne: "nrows (built_points s p) \<noteq> nrows (built_points s q)"
  shows "gather x s conn = Inl ValueError"
proof -
  have all: "\<forall>p \<in> set (pre conn). ens_params s (pre_ensemble p) \<noteq> None"
    using built by auto
  have nonempty: "pre conn \<noteq> []" using p by auto
  from pre_loop_built [OF ev all, of x loop_init] nonempty obtain v where
    r: "pre_loop x s conn (pre conn) loop_init = Inr v"
    and el: "l_eval_points_list v = map (built_points s) (pre conn)"
    and ep: "l_eval_points v = Some (built_points s (last (pre conn)))"
    by (auto simp: loop_init_def)
  have "last (pre conn) \<in> set (pre conn)"
    using nonempty by simp
  then obtain b where "ens_params s (pre_ensemble (last (pre conn))) = Some b"
    "wf_mat (be_eval_points b)"
    using built by blast
  then have "wf_mat (built_points s (last (pre conn)))"
    by (simp add: built_points_def)
  then have nd: "\<not> counts_differ (built_points s (last (pre conn)))"
    by (rule counts_differ_wf)
  have "built_points s p \<in> set (l_eval_points_list v)"
    and "built_points s q \<in> set (l_eval_points_list v)"
    using p q by (simp_all add: el)
  then have cat: "np_concatenate1 (l_eval_points_list v) = Inl ValueError"
    using ne by (rule np_concatenate1_mismatch)
  show ?thesis
    by (simp add: gather_def r ep nd cat)
qed

text \<open>
  Claim C1.  A connection is requested for the first time, \<open>conn.eval_points\<close> is
  \<open>None\<close>, every source ensemble has been built, and two of them have different numbers
  of evaluation points.  The claim says that a \<open>BuildError\<close> with the message about the
  number of evaluation points is raised.  In the code the test before it looks at the rows
  of the array of the last entry (\<open>eval_points\<close>, not \<open>eval_points_list\<close>), whose lengths
  never differ, so it does not fire: the request fails in \<open>np.concatenate\<close> with a
  \<open>ValueError\<close>, which is not the build error; the solver has not been called, and the
  empty \<open>BuiltConnection\<close> stored at the start of the build remains in \<open>model.params\<close>.
\<close>

theorem mismatched_counts_value_error:
  assumes unc: "conn_params s (c_id (sw_connection sw)) = None"
    and ev: "c_eval_points (sw_connection sw) = None"
    and built: "\<forall>p \<in> set (pre (sw_connection sw)).
                  \<exists>b. ens_params s (pre_ensemble p) = Some b \<and> wf_mat (be_eval_points b)"
    and p: "p \<in> set (pre (sw_connection sw))" and q: "q \<in> set (pre (sw_connection sw))"
    and ne: "nrows (built_points s p) \<noteq> nrows (built_points s q)"
  shows "fst (build_solver x s sw) = Inl ValueError \<and>
         fst (build_solver x s sw) \<noteq> Inl count_mismatch \<and>
         solves (snd (build_solver x s sw)) = solves s \<and>
         conn_params (snd (build_solver x s sw)) (c_id (sw_connection sw)) = Some BuiltConnection"
proof -
  let ?conn = "sw_connection sw"
  let ?s2 = "enter_build s ?conn"
  have e: "ens_params ?s2 = ens_params s"
    by (simp add: enter_build_fields)
  have bp: "built_points ?s2 = built_points s"
    by (simp add: built_points_def e fun_eq_iff)
  have g: "gather x ?s2 ?conn = Inl ValueError"
    using ev built p q ne by (intro gather_mismatch [of ?conn ?s2 p q]) (simp_all add: e bp)
  have b: "build_connection x ?s2 ?conn = (Inl ValueError, ?s2)"
    by (simp add: build_connection_def g)
  have r: "build_solver x s sw = (Inl ValueError, ?s2)"
    by (simp add: build_solver_def unc b)
  show ?thesis
    by (simp add: r enter_build_fields count_mismatch_def)
qed

lemma mismatched_uncached:
  "conn_params mismatched_model (c_id (sw_connection (sample_request 0 Excitatory))) = None"
  by code_simp

lemma mismatched_no_eval_points:
  "c_eval_points (sw_connection (sample_request 0 Excitatory)) = None"
  by code_simp

lemma sample_pre:
  "pre (sw_connection (sample_request i t)) =
     [\<lparr> pre_ensemble = 0, size_out = 1, neurons_size_out = 2 \<rparr>,
      \<lparr> pre_ensemble = 1, size_out = 1, neurons_size_out = 1 \<rparr>]"
  by (simp add: sample_request_def sample_conn_def)

lemma mismatched_built:
  "\<forall>p \<in> set (pre (sw_connection (sample_request 0 Excitatory))).
     \<exists>b. ens_params mismatched_model (pre_ensemble p) = Some b \<and> wf_mat (be_eval_points b)"
  by (simp add: sample_pre mismatched_model_def two_ens_model_def sample_ensemble_def wf_mat_def)

lemma mismatched_counts:
  "nrows (built_points mismatched_model \<lparr> pre_ensemble = 0, size_out = 1, neurons_size_out = 2 \<rparr>)
     \<noteq> nrows (built_points mismatched_model
              \<lparr> pre_ensemble = 1, size_out = 1, neurons_size_out = 1 \<rparr>)"
  by (simp add: built_points_def mismatched_model_def two_ens_model_def sample_ensemble_def)

theorem mismatched_counts_value_error_witness:
  "conn_params mismatched_model (c_id (sw_connection (sample_request 0 Excitatory))) = None \<and>
   c_eval_points (sw_connection (sample_request 0 Excitatory)) = None \<and>
   nrows (built_points mismatched_model \<lparr> pre_ensemble = 0, size_out = 1, neurons_size_out = 2 \<rparr>)
     \<noteq> nrows (built_points mismatched_model
              \<lparr> pre_ensemble = 1, size_out = 1, neurons_size_out = 1 \<rparr>) \<and>
   fst (build_solver sample_ext mismatched_model (sample_request 0 Excitatory)) = Inl ValueError \<and>
   fst (build_solver sample_ext mismatched_model (sample_request 0 Excitatory))
     \<noteq> Inl count_mismatch \<and>
   solves (snd (build_solver sample_ext mismatched_model (sample_request 0 Excitatory)))
     = solves mismatched_model \<and>
   conn_params (snd (build_solver sample_ext mismatched_model (sample_request 0 Excitatory)))
     (c_id (sw_connection (sample_request 0 Excitatory))) = Some BuiltConnection"
proof -
  have p: "\<lparr> pre_ensemble = 0, size_out = 1, neurons_size_out = 2 \<rparr>
             \<in> set (pre (sw_connection (sample_request 0 Excitatory)))"
    and q: "\<lparr> pre_ensemble = 1, size_out = 1, neurons_size_out = 1 \<rparr>
             \<in> set (pre (sw_connection (sample_request 0 Excitatory)))"
    by (simp_all add: sample_pre)
  note t = mismatched_counts_value_error [OF mismatched_uncached mismatched_no_eval_points
      mismatched_built p q mismatched_counts, of sample_ext]
  show ?thesis
    using mismatched_uncached mismatched_no_eval_points mismatched_counts t by blast
qed

subsection \<open>At most one build\<close>





subsection \<open>Signs of the stored weights\<close>

lemma build_solver_caches:
  "conn_params (snd (build_solver x s sw)) (c_id (sw_connection sw)) \<noteq> None"
proof (cases rule: build_solver_cases [of s sw x])
  case (hit bc)
  obtain r s' where l: "lookup_weights s sw bc = (r, s')"
    by (cases "lookup_weights s sw bc")
  show ?thesis
    using hit l lookup_weights_fields(1) [OF l] by simp
next
  case (build_fails e s3)
  note f = build_connection_fail [OF build_fails(2)]
  show ?thesis
    by (simp add: build_fails(3) f(1) enter_build_fields)
next
  case (built bc s3)
  note k = build_connection_ok_fields [OF built(2)]
  obtain r s' where l: "lookup_weights s3 sw bc = (r, s')"
    by (cases "lookup_weights s3 sw bc")
  show ?thesis
    using built(3) l lookup_weights_fields(1) [OF l] by (simp add: k(1))
qed


subsection \<open>The returned matrix\<close>








end
